theory Spec2Isabelle
  imports Main "HOL-Library.Word"
begin

unbundle bit_operations_syntax

section \<open>The asynchronous I2C command engine of \<^verbatim>\<open>src/i2c_async.c\<close>\<close>

text \<open>
  The engine is a process-wide singleton \<^verbatim>\<open>I2C_QUEUE\<close> mutated from ordinary program
  flow and from the TWI interrupt handler. Every C function becomes a function from the
  machine state to \<open>error + state\<close>: a failed \<^verbatim>\<open>assert\<close> and a call of \<^verbatim>\<open>fault\<close> are
  terminal and are the \<open>Inl\<close> results. The functions that call each other recursively
  (\<^verbatim>\<open>i2c_queue_process_command\<close>, \<^verbatim>\<open>i2c_queue_start_transmitter\<close>,
  \<^verbatim>\<open>i2c_queue_fetch_commands\<close>) can run forever when a producer callback never finishes,
  so they take a call budget and answer \<open>Inl Fuel_exhausted\<close> when it is used up.
\<close>

type_synonym u8 = "8 word"
type_synonym u16 = "16 word"

subsection \<open>Faults and assertions\<close>

datatype fault_category = FAULT_I2C

text \<open>
  Modelled from the spec: \<^verbatim>\<open>fault.h\<close> and \<^verbatim>\<open>assert.h\<close> are not part of the sources. The fault
  facility is one reporting call (category, numeric code, description) that is terminal,
  and a violated precondition check is a programming fault routed to it. \<open>Fault\<close> is a call
  of \<^verbatim>\<open>fault\<close>, \<open>Assertion_failed\<close> a failed \<^verbatim>\<open>assert\<close> with the text of its condition.
  \<open>Out_of_bounds\<close> marks an access outside a C array (undefined behaviour in C).
\<close>

datatype error =
    Fault fault_category int string
  | Assertion_failed string
  | Out_of_bounds
  | Fuel_exhausted

subsection \<open>Data model\<close>

text \<open>\<^verbatim>\<open>i2c_command_code_t\<close>: a C enum, that is an integer; the \<^verbatim>\<open>default\<close> branch of the
  state machine exists for the values that are none of the four.\<close>

definition I2C_COMMAND_START :: int where "I2C_COMMAND_START = 0x01"
definition I2C_COMMAND_SEND_DATA :: int where "I2C_COMMAND_SEND_DATA = 0x02"
definition I2C_COMMAND_STOP :: int where "I2C_COMMAND_STOP = 0x03"
definition I2C_COMMAND_PENDING :: int where "I2C_COMMAND_PENDING = 0x04"

record i2c_command_t =
  code :: int
  data :: u8

text \<open>\<^verbatim>\<open>i2c_command_buffer_t\<close>: the field \<^verbatim>\<open>length\<close> is \<open>buf_length\<close> here; \<open>commands\<close> is the
  array, a list whose length is \<^verbatim>\<open>I2C_BUFFER_SIZE\<close>.\<close>

record i2c_command_buffer_t =
  buf_length :: u8
  commands :: "i2c_command_t list"

text \<open>\<^verbatim>\<open>i2c_task_t\<close>: \<open>callback\<close> is a function pointer and \<open>task_data\<close> (the field \<^verbatim>\<open>data\<close>)
  the \<^verbatim>\<open>void *\<close> handed to it. What a function pointer runs is given by the program, the
  parameter \<open>exec\<close> of the engine's functions.\<close>

record ('f, 'd) i2c_task_t =
  callback :: 'f
  task_data :: 'd
  address :: u8

text \<open>
  Modelled from the spec: \<^verbatim>\<open>ring_buffer.h\<close> is not part of the sources. The task queue is a
  fixed-capacity FIFO: \<open>elements\<close> holds the queued elements, head first, and
  \<open>elements_max\<close> is the capacity given to \<^verbatim>\<open>ring_buffer_init\<close>. Appending to a full
  buffer and reading or discarding the head of an empty one are programming faults.
\<close>

record 'a ring_buffer_t =
  elements :: "'a list"
  elements_max :: nat

definition ring_buffer_init :: "nat \<Rightarrow> 'a ring_buffer_t" where
  "ring_buffer_init n = \<lparr>elements = [], elements_max = n\<rparr>"

definition ring_buffer_can_read_n_elements :: "'a ring_buffer_t \<Rightarrow> nat \<Rightarrow> bool" where
  "ring_buffer_can_read_n_elements rb n = (n \<le> length (elements rb))"

definition ring_buffer_can_write_n_elements :: "'a ring_buffer_t \<Rightarrow> nat \<Rightarrow> bool" where
  "ring_buffer_can_write_n_elements rb n = (length (elements rb) + n \<le> elements_max rb)"

definition ring_buffer_append :: "'a ring_buffer_t \<Rightarrow> 'a \<Rightarrow> error + 'a ring_buffer_t" where
  "ring_buffer_append rb x =
     (if ring_buffer_can_write_n_elements rb 1
      then Inr (rb\<lparr>elements := elements rb @ [x]\<rparr>)
      else Inl (Assertion_failed ''ring_buffer_append: full''))"

definition ring_buffer_get_first :: "'a ring_buffer_t \<Rightarrow> error + 'a" where
  "ring_buffer_get_first rb =
     (case elements rb of
        [] \<Rightarrow> Inl (Assertion_failed ''ring_buffer_get_first: empty'')
      | x # _ \<Rightarrow> Inr x)"

definition ring_buffer_discard :: "'a ring_buffer_t \<Rightarrow> error + 'a ring_buffer_t" where
  "ring_buffer_discard rb =
     (case elements rb of
        [] \<Rightarrow> Inl (Assertion_failed ''ring_buffer_discard: empty'')
      | _ # xs \<Rightarrow> Inr (rb\<lparr>elements := xs\<rparr>))"

text \<open>The two buffer pointers of \<^verbatim>\<open>i2c_queue_t\<close> point at \<^verbatim>\<open>buffer_a\<close> or \<^verbatim>\<open>buffer_b\<close>.\<close>

datatype buffer_ptr = Buffer_A | Buffer_B

text \<open>\<^verbatim>\<open>i2c_queue_t\<close>. The array \<^verbatim>\<open>tasks_storage\<close> is the storage of the ring buffer \<open>tasks\<close>
  and is part of it here.\<close>

record ('f, 'd) i2c_queue_t =
  tasks :: "('f, 'd) i2c_task_t ring_buffer_t"
  buffer_a :: i2c_command_buffer_t
  buffer_b :: i2c_command_buffer_t
  front_buffer :: buffer_ptr
  back_buffer :: buffer_ptr
  transmitter_active :: bool
  pending_buffer_switch :: bool
  tasks_n :: u8
  front_buffer_cursor :: u8
  current_command :: i2c_command_t

text \<open>
  Modelled from the spec: \<^verbatim>\<open>i2c_hw.h\<close> is not part of the sources. The bus primitive layer
  is non-blocking; the model records each call, in order.
\<close>

datatype hw_call =
    Hw_init
  | Hw_send_start_condition
  | Hw_send_byte u8
  | Hw_send_stop_condition
  | Hw_disable_int

text \<open>The machine: the singleton \<^verbatim>\<open>I2C_QUEUE\<close>, the calls made to the bus primitive layer,
  the global interrupt enable bit of \<^verbatim>\<open>SREG\<close>, and the memory of the rest of the program
  (where the contexts of the producer callbacks live). \<open>cb_calls\<close> is a history variable
  that no function reads: for each producer callback call made by
  \<^verbatim>\<open>i2c_queue_fetch_commands\<close>, in order, the task, the value the callback returned and
  the commands it left in the back buffer (which is empty when the callback is called).\<close>

record ('f, 'd, 'm) machine = "('f, 'd) i2c_queue_t" +
  hw_calls :: "hw_call list"
  sreg_i :: bool
  mem :: 'm
  cb_calls :: "(('f, 'd) i2c_task_t \<times> bool \<times> i2c_command_t list) list"

type_synonym ('f, 'd, 'm) program =
  "'f \<Rightarrow> 'd \<Rightarrow> ('f, 'd, 'm) machine \<Rightarrow> error + (bool \<times> ('f, 'd, 'm) machine)"

definition deref :: "('f, 'd, 'm) machine \<Rightarrow> buffer_ptr \<Rightarrow> i2c_command_buffer_t" where
  "deref q p = (case p of Buffer_A \<Rightarrow> buffer_a q | Buffer_B \<Rightarrow> buffer_b q)"

definition store :: "buffer_ptr \<Rightarrow> i2c_command_buffer_t \<Rightarrow> ('f, 'd, 'm) machine \<Rightarrow> ('f, 'd, 'm) machine" where
  "store p b q = (case p of Buffer_A \<Rightarrow> q\<lparr>buffer_a := b\<rparr> | Buffer_B \<Rightarrow> q\<lparr>buffer_b := b\<rparr>)"

definition buffer_contents :: "i2c_command_buffer_t \<Rightarrow> i2c_command_t list" where
  "buffer_contents b = take (unat (buf_length b)) (commands b)"

definition read_command :: "i2c_command_buffer_t \<Rightarrow> nat \<Rightarrow> error + i2c_command_t" where
  "read_command b i = (if i < length (commands b) then Inr (commands b ! i) else Inl Out_of_bounds)"

definition write_command :: "buffer_ptr \<Rightarrow> nat \<Rightarrow> i2c_command_t \<Rightarrow> ('f, 'd, 'm) machine \<Rightarrow> error + ('f, 'd, 'm) machine" where
  "write_command p i c q =
     (let b = deref q p in
      if i < length (commands b) then Inr (store p (b\<lparr>commands := (commands b)[i := c]\<rparr>) q)
      else Inl Out_of_bounds)"

subsection \<open>Bus primitives\<close>

text \<open>Modelled from the spec: the bodies of the bus primitives of \<^verbatim>\<open>i2c_hw.h\<close> are not part
  of the sources. Each primitive returns at once and is recorded in \<open>hw_calls\<close>; the
  completion of a start condition or of a byte is reported later by an interrupt, a stop
  condition and the disabling of the interrupt raise none.\<close>

definition i2c_hw_init :: "('f, 'd, 'm) machine \<Rightarrow> ('f, 'd, 'm) machine" where
  "i2c_hw_init q = q\<lparr>hw_calls := hw_calls q @ [Hw_init]\<rparr>"

definition i2c_hw_send_start_condition_int :: "('f, 'd, 'm) machine \<Rightarrow> ('f, 'd, 'm) machine" where
  "i2c_hw_send_start_condition_int q = q\<lparr>hw_calls := hw_calls q @ [Hw_send_start_condition]\<rparr>"

definition i2c_hw_send_byte_int :: "u8 \<Rightarrow> ('f, 'd, 'm) machine \<Rightarrow> ('f, 'd, 'm) machine" where
  "i2c_hw_send_byte_int b q = q\<lparr>hw_calls := hw_calls q @ [Hw_send_byte b]\<rparr>"

definition i2c_hw_send_stop_condition :: "('f, 'd, 'm) machine \<Rightarrow> ('f, 'd, 'm) machine" where
  "i2c_hw_send_stop_condition q = q\<lparr>hw_calls := hw_calls q @ [Hw_send_stop_condition]\<rparr>"

definition i2c_hw_disable_int :: "('f, 'd, 'm) machine \<Rightarrow> ('f, 'd, 'm) machine" where
  "i2c_hw_disable_int q = q\<lparr>hw_calls := hw_calls q @ [Hw_disable_int]\<rparr>"

subsection \<open>The consumer: buffer switch, task switch, state machine\<close>

definition i2c_queue_switch_buffers :: "('f, 'd, 'm) machine \<Rightarrow> error + ('f, 'd, 'm) machine" where
  "i2c_queue_switch_buffers q =
     (if \<not> 0 < buf_length (deref q (back_buffer q))
      then Inl (Assertion_failed ''I2C_QUEUE.back_buffer->length > 0'')
      else if \<not> front_buffer_cursor q = buf_length (deref q (front_buffer q))
      then Inl (Assertion_failed ''I2C_QUEUE.front_buffer_cursor == I2C_QUEUE.front_buffer->length'')
      else
        let tmp = back_buffer q;
            q1 = q\<lparr>back_buffer := front_buffer q\<rparr>;
            q2 = q1\<lparr>front_buffer := tmp\<rparr>;
            q3 = q2\<lparr>pending_buffer_switch := False\<rparr>;
            q4 = store (back_buffer q3) ((deref q3 (back_buffer q3))\<lparr>buf_length := 0\<rparr>) q3;
            q5 = q4\<lparr>front_buffer_cursor := 0\<rparr>
        in case read_command (deref q5 (front_buffer q5)) 0 of
             Inl e \<Rightarrow> Inl e
           | Inr c \<Rightarrow> Inr (q5\<lparr>current_command := c\<rparr>))"

definition i2c_queue_switch_tasks :: "('f, 'd, 'm) machine \<Rightarrow> error + ('f, 'd, 'm) machine" where
  "i2c_queue_switch_tasks q =
     (if sreg_i q then Inl (Assertion_failed ''(SREG & _BV(SREG_I)) == 0'')
      else if \<not> ring_buffer_can_read_n_elements (tasks q) 1
      then Inl (Assertion_failed ''ring_buffer_assert_can_read_n_elements'')
      else case ring_buffer_discard (tasks q) of
             Inl e \<Rightarrow> Inl e
           | Inr rb \<Rightarrow> Inr (q\<lparr>tasks := rb, tasks_n := tasks_n q - 1\<rparr>))"

text \<open>
  The mutually recursive core. \<open>i2c_queue_process_command_advance\<close> is the part of
  \<^verbatim>\<open>i2c_queue_process_command\<close> after its \<^verbatim>\<open>switch\<close> (the \<^verbatim>\<open>Pending\<close> case returns before it),
  and \<open>i2c_queue_fetch_commands_loop\<close> is the \<^verbatim>\<open>do ... while (true)\<close> of
  \<^verbatim>\<open>i2c_queue_fetch_commands\<close>. Every call costs one unit of the budget.

  The producer callback runs inside \<^verbatim>\<open>NONATOMIC_BLOCK(NONATOMIC_FORCEOFF)\<close>: interrupts are
  enabled for its duration and disabled again afterwards. What happens during that time,
  the callback's own work and any interrupt handler that preempts it, is the result of
  \<open>exec\<close>.
\<close>

fun i2c_queue_process_command ::
      "('f, 'd, 'm) program \<Rightarrow> nat \<Rightarrow> ('f, 'd, 'm) machine \<Rightarrow> error + ('f, 'd, 'm) machine"
  and i2c_queue_process_command_advance ::
      "('f, 'd, 'm) program \<Rightarrow> nat \<Rightarrow> ('f, 'd, 'm) machine \<Rightarrow> error + ('f, 'd, 'm) machine"
  and i2c_queue_start_transmitter ::
      "('f, 'd, 'm) program \<Rightarrow> nat \<Rightarrow> ('f, 'd, 'm) machine \<Rightarrow> error + ('f, 'd, 'm) machine"
  and i2c_queue_fetch_commands ::
      "('f, 'd, 'm) program \<Rightarrow> nat \<Rightarrow> ('f, 'd, 'm) machine \<Rightarrow> error + ('f, 'd, 'm) machine"
  and i2c_queue_fetch_commands_loop ::
      "('f, 'd, 'm) program \<Rightarrow> nat \<Rightarrow> ('f, 'd, 'm) machine \<Rightarrow> error + ('f, 'd, 'm) machine"
where
  "i2c_queue_process_command exec 0 q = Inl Fuel_exhausted"
| "i2c_queue_process_command exec (Suc n) q =
     (if sreg_i q then Inl (Assertion_failed ''(SREG & _BV(SREG_I)) == 0'')
      else if \<not> transmitter_active q
      then Inl (Assertion_failed ''I2C_QUEUE.transmitter_active'')
      else if \<not> 0 < buf_length (deref q (front_buffer q))
      then Inl (Assertion_failed ''I2C_QUEUE.front_buffer->length > 0'')
      else if \<not> front_buffer_cursor q \<le> buf_length (deref q (front_buffer q))
      then Inl (Assertion_failed ''I2C_QUEUE.front_buffer_cursor <= I2C_QUEUE.front_buffer->length'')
      else if code (current_command q) = I2C_COMMAND_SEND_DATA
      then i2c_queue_process_command_advance exec n
             (i2c_hw_send_byte_int (data (current_command q)) q)
      else if code (current_command q) = I2C_COMMAND_START
      then i2c_queue_process_command_advance exec n (i2c_hw_send_start_condition_int q)
      else if code (current_command q) = I2C_COMMAND_STOP
      then i2c_queue_process_command_advance exec n
             ((i2c_hw_send_stop_condition q)\<lparr>transmitter_active := False\<rparr>)
      else if code (current_command q) = I2C_COMMAND_PENDING
      then (if pending_buffer_switch q
            then (case i2c_queue_switch_buffers q of
                    Inl e \<Rightarrow> Inl e
                  | Inr q1 \<Rightarrow>
                      (case i2c_queue_process_command exec n q1 of
                         Inl e \<Rightarrow> Inl e
                       | Inr q2 \<Rightarrow>
                           if 0 < tasks_n q2 then i2c_queue_fetch_commands exec n q2
                           else Inr q2))
            else Inr ((i2c_hw_disable_int q)\<lparr>transmitter_active := False\<rparr>))
      else Inl (Fault FAULT_I2C (code (current_command q)) ''Invalid command''))"
| "i2c_queue_process_command_advance exec 0 q = Inl Fuel_exhausted"
| "i2c_queue_process_command_advance exec (Suc n) q =
     (let q1 = q\<lparr>front_buffer_cursor := front_buffer_cursor q + 1\<rparr> in
      if front_buffer_cursor q1 = buf_length (deref q1 (front_buffer q1))
      then (if pending_buffer_switch q1
            then (case i2c_queue_switch_buffers q1 of
                    Inl e \<Rightarrow> Inl e
                  | Inr q2 \<Rightarrow>
                      (case (if \<not> transmitter_active q2
                             then i2c_queue_start_transmitter exec n q2
                             else Inr q2) of
                         Inl e \<Rightarrow> Inl e
                       | Inr q3 \<Rightarrow>
                           if 0 < tasks_n q3 then i2c_queue_fetch_commands exec n q3
                           else Inr q3))
            else Inr (q1\<lparr>current_command := (current_command q1)\<lparr>code := I2C_COMMAND_PENDING\<rparr>\<rparr>))
      else (case read_command (deref q1 (front_buffer q1)) (unat (front_buffer_cursor q1)) of
              Inl e \<Rightarrow> Inl e
            | Inr c \<Rightarrow>
                let q2 = q1\<lparr>current_command := c\<rparr> in
                if \<not> transmitter_active q2
                then Inl (Assertion_failed ''I2C_QUEUE.transmitter_active'')
                else Inr q2))"
| "i2c_queue_start_transmitter exec 0 q = Inl Fuel_exhausted"
| "i2c_queue_start_transmitter exec (Suc n) q =
     (if transmitter_active q
      then Inl (Assertion_failed ''!(I2C_QUEUE.transmitter_active)'')
      else if \<not> code (current_command q) \<noteq> I2C_COMMAND_PENDING
      then Inl (Assertion_failed ''I2C_QUEUE.current_command.code != I2C_COMMAND_PENDING'')
      else i2c_queue_process_command exec n (q\<lparr>transmitter_active := True\<rparr>))"
| "i2c_queue_fetch_commands exec 0 q = Inl Fuel_exhausted"
| "i2c_queue_fetch_commands exec (Suc n) q =
     (if sreg_i q then Inl (Assertion_failed ''(SREG & _BV(SREG_I)) == 0'')
      else if \<not> 0 < tasks_n q then Inl (Assertion_failed ''I2C_QUEUE.tasks_n > 0'')
      else if pending_buffer_switch q
      then Inl (Assertion_failed ''!(I2C_QUEUE.pending_buffer_switch)'')
      else i2c_queue_fetch_commands_loop exec n q)"
| "i2c_queue_fetch_commands_loop exec 0 q = Inl Fuel_exhausted"
| "i2c_queue_fetch_commands_loop exec (Suc n) q =
     (if tasks_n q = 0 then Inr q
      else case ring_buffer_get_first (tasks q) of
        Inl e \<Rightarrow> Inl e
      | Inr task \<Rightarrow>
          if \<not> buf_length (deref q (back_buffer q)) = 0
          then Inl (Assertion_failed ''I2C_QUEUE.back_buffer->length == 0'')
          else case exec (callback task) (task_data task) (q\<lparr>sreg_i := True\<rparr>) of
            Inl e \<Rightarrow> Inl e
          | Inr (keep_task, q1) \<Rightarrow>
              let q2 = q1\<lparr>sreg_i := False,
                         cb_calls := cb_calls q1 @
                           [(task, keep_task, buffer_contents (deref q1 (back_buffer q1)))]\<rparr> in
              if \<not> 0 < buf_length (deref q2 (back_buffer q2))
              then Inl (Assertion_failed ''I2C_QUEUE.back_buffer->length > 0'')
              else case (if \<not> keep_task then i2c_queue_switch_tasks q2 else Inr q2) of
                Inl e \<Rightarrow> Inl e
              | Inr q3 \<Rightarrow>
                  if \<not> transmitter_active q3
                  then (case i2c_queue_switch_buffers q3 of
                          Inl e \<Rightarrow> Inl e
                        | Inr q4 \<Rightarrow>
                            (case i2c_queue_start_transmitter exec n q4 of
                               Inl e \<Rightarrow> Inl e
                             | Inr q5 \<Rightarrow> i2c_queue_fetch_commands_loop exec n q5))
                  else Inr (q3\<lparr>pending_buffer_switch := True\<rparr>))"

subsection \<open>The interrupt handler\<close>

text \<open>The status codes of \<^verbatim>\<open><util/twi.h>\<close> (avr-libc) for master transmitter mode. The
  handler reads \<^verbatim>\<open>TWSR\<close>, an input of the model, and masks the prescaler bits away.\<close>

definition TW_STATUS_MASK :: u8 where "TW_STATUS_MASK = 0xF8"
definition TW_BUS_ERROR :: u8 where "TW_BUS_ERROR = 0x00"
definition TW_START :: u8 where "TW_START = 0x08"
definition TW_REP_START :: u8 where "TW_REP_START = 0x10"
definition TW_MT_SLA_ACK :: u8 where "TW_MT_SLA_ACK = 0x18"
definition TW_MT_SLA_NACK :: u8 where "TW_MT_SLA_NACK = 0x20"
definition TW_MT_DATA_ACK :: u8 where "TW_MT_DATA_ACK = 0x28"
definition TW_MT_DATA_NACK :: u8 where "TW_MT_DATA_NACK = 0x30"
definition TW_MT_ARB_LOST :: u8 where "TW_MT_ARB_LOST = 0x38"

text \<open>\<^verbatim>\<open>ISR(TWI_vect)\<close>: the hardware clears the global interrupt enable bit on entry and
  the return from the handler sets it again.\<close>

definition TWI_vect ::
  "('f, 'd, 'm) program \<Rightarrow> nat \<Rightarrow> u8 \<Rightarrow> ('f, 'd, 'm) machine \<Rightarrow> error + ('f, 'd, 'm) machine" where
  "TWI_vect exec fuel twsr q =
     (let i2c_status = twsr AND TW_STATUS_MASK in
      if i2c_status > TW_MT_DATA_ACK \<or> i2c_status = TW_MT_SLA_NACK
      then Inl (Fault FAULT_I2C (uint i2c_status) ''Error status'')
      else case i2c_queue_process_command exec fuel (q\<lparr>sreg_i := False\<rparr>) of
             Inl e \<Rightarrow> Inl e
           | Inr q1 \<Rightarrow> Inr (q1\<lparr>sreg_i := True\<rparr>))"

subsection \<open>User API\<close>

text \<open>\<^verbatim>\<open>i2c_init\<close>; \<open>queue_size\<close> is \<^verbatim>\<open>I2C_QUEUE_SIZE\<close> of \<^verbatim>\<open>config.h\<close>, the number of elements
  of \<^verbatim>\<open>tasks_storage\<close>.\<close>

definition i2c_init :: "nat \<Rightarrow> ('f, 'd, 'm) machine \<Rightarrow> ('f, 'd, 'm) machine" where
  "i2c_init queue_size q =
     (let q1 = q\<lparr>front_buffer := Buffer_A\<rparr>;
          q2 = store (front_buffer q1) ((deref q1 (front_buffer q1))\<lparr>buf_length := 0\<rparr>) q1;
          q3 = q2\<lparr>front_buffer_cursor := 0\<rparr>;
          q4 = q3\<lparr>back_buffer := Buffer_B\<rparr>;
          q5 = store (back_buffer q4) ((deref q4 (back_buffer q4))\<lparr>buf_length := 0\<rparr>) q4;
          q6 = q5\<lparr>pending_buffer_switch := False\<rparr>;
          q7 = q6\<lparr>transmitter_active := False\<rparr>;
          q8 = q7\<lparr>tasks_n := 0\<rparr>;
          q9 = q8\<lparr>current_command := (current_command q8)\<lparr>code := I2C_COMMAND_PENDING\<rparr>\<rparr>;
          q10 = q9\<lparr>tasks := ring_buffer_init queue_size\<rparr>
      in i2c_hw_init q10)"

definition i2c_is_idle :: "('f, 'd, 'm) machine \<Rightarrow> bool" where
  "i2c_is_idle q = (\<not> transmitter_active q \<and> tasks_n q = 0)"

text \<open>\<^verbatim>\<open>i2c_transmit_async\<close>: the body is an \<^verbatim>\<open>ATOMIC_BLOCK(ATOMIC_RESTORESTATE)\<close>, which
  disables interrupts and restores the saved enable bit at its end.\<close>

definition i2c_transmit_async ::
  "('f, 'd, 'm) program \<Rightarrow> nat \<Rightarrow> u8 \<Rightarrow> 'f \<Rightarrow> 'd \<Rightarrow> ('f, 'd, 'm) machine \<Rightarrow> error + ('f, 'd, 'm) machine" where
  "i2c_transmit_async exec fuel addr cb cb_data q =
     (let saved = sreg_i q; q0 = q\<lparr>sreg_i := False\<rparr> in
      if \<not> ring_buffer_can_write_n_elements (tasks q0) 1
      then Inl (Assertion_failed ''ring_buffer_assert_can_write_n_elements'')
      else case ring_buffer_append (tasks q0)
                  \<lparr>callback = cb, task_data = cb_data, address = addr\<rparr> of
        Inl e \<Rightarrow> Inl e
      | Inr rb \<Rightarrow>
          let is_idle = i2c_is_idle q0;
              q1 = q0\<lparr>tasks := rb\<rparr>;
              q2 = q1\<lparr>tasks_n := tasks_n q1 + 1\<rparr>
          in case (if is_idle then i2c_queue_fetch_commands exec fuel q2 else Inr q2) of
               Inl e \<Rightarrow> Inl e
             | Inr q3 \<Rightarrow> Inr (q3\<lparr>sreg_i := saved\<rparr>))"

text \<open>\<^verbatim>\<open>i2c_wait\<close> spins on \<^verbatim>\<open>i2c_is_idle\<close> with interrupts enabled. The list is the bus
  status of each interrupt that arrives while it spins; when the list ends and the
  engine is still busy the loop never ends.\<close>

fun i2c_wait ::
  "('f, 'd, 'm) program \<Rightarrow> nat \<Rightarrow> u8 list \<Rightarrow> ('f, 'd, 'm) machine \<Rightarrow> error + ('f, 'd, 'm) machine" where
  "i2c_wait exec fuel [] q = (if i2c_is_idle q then Inr q else Inl Fuel_exhausted)"
| "i2c_wait exec fuel (twsr # irqs) q =
     (if i2c_is_idle q then Inr q
      else case TWI_vect exec fuel twsr q of
             Inl e \<Rightarrow> Inl e
           | Inr q1 \<Rightarrow> i2c_wait exec fuel irqs q1)"

subsection \<open>Producer API\<close>

text \<open>\<open>bsz\<close> is \<^verbatim>\<open>I2C_BUFFER_SIZE\<close> of \<^verbatim>\<open>config.h\<close>. The subtraction is done in C's \<^verbatim>\<open>int\<close>.\<close>

definition i2c_produce_command ::
  "nat \<Rightarrow> int \<Rightarrow> u8 \<Rightarrow> ('f, 'd, 'm) machine \<Rightarrow> error + ('f, 'd, 'm) machine" where
  "i2c_produce_command bsz c d q =
     (if \<not> int bsz - uint (buf_length (deref q (back_buffer q))) \<ge> 1
      then Inl (Assertion_failed ''I2C_BUFFER_SIZE - I2C_QUEUE.back_buffer->length >= 1'')
      else case write_command (back_buffer q) (unat (buf_length (deref q (back_buffer q))))
                  \<lparr>code = c, data = d\<rparr> q of
        Inl e \<Rightarrow> Inl e
      | Inr q1 \<Rightarrow>
          Inr (store (back_buffer q1)
                 ((deref q1 (back_buffer q1))
                    \<lparr>buf_length := buf_length (deref q1 (back_buffer q1)) + 1\<rparr>) q1))"

definition i2c_async_send_byte :: "nat \<Rightarrow> u8 \<Rightarrow> ('f, 'd, 'm) machine \<Rightarrow> error + ('f, 'd, 'm) machine" where
  "i2c_async_send_byte bsz d q = i2c_produce_command bsz I2C_COMMAND_SEND_DATA d q"

text \<open>The \<^verbatim>\<open>for\<close> loop of \<^verbatim>\<open>i2c_async_send_bytes\<close>; \<open>base\<close> is the index of \<^verbatim>\<open>commands[0]\<close>,
  the back buffer's length on entry, and \<open>bytes\<close> the memory the pointer \<^verbatim>\<open>data\<close> points at.\<close>

function i2c_async_send_bytes_loop ::
  "nat \<Rightarrow> (nat \<Rightarrow> u8) \<Rightarrow> u8 \<Rightarrow> u8 \<Rightarrow> ('f, 'd, 'm) machine \<Rightarrow> error + ('f, 'd, 'm) machine" where
  "i2c_async_send_bytes_loop base bytes n i q =
     (if i < n
      then (case write_command (back_buffer q) (base + unat i)
                   \<lparr>code = I2C_COMMAND_SEND_DATA, data = bytes (unat i)\<rparr> q of
              Inl e \<Rightarrow> Inl e
            | Inr q1 \<Rightarrow> i2c_async_send_bytes_loop base bytes n (i + 1) q1)
      else Inr q)"
  by pat_completeness auto
termination
proof (relation "measure (\<lambda>(base, bytes, n, i, q). unat n - unat i)")
  show "wf (measure (\<lambda>(base, bytes, n :: u8, i :: u8, q :: ('f, 'd, 'm) machine). unat n - unat i))"
    by simp
next
  fix base :: nat and bytes :: "nat \<Rightarrow> u8" and n i :: u8 and q x2 :: "('f, 'd, 'm) machine"
  assume "i < n"
  then have "unat i < unat n" by (simp add: word_less_nat_alt)
  moreover have "unat n < 256" using unsigned_less [of n, where ?'a = nat] by simp
  ultimately have "unat (i + 1) = unat i + 1"
    by (simp add: unat_word_ariths)
  with \<open>unat i < unat n\<close> show "((base, bytes, n, i + 1, x2), (base, bytes, n, i, q))
      \<in> measure (\<lambda>(base, bytes, n, i, q). unat n - unat i)"
    by simp
qed

declare i2c_async_send_bytes_loop.simps [simp del]

definition i2c_async_send_bytes ::
  "nat \<Rightarrow> (nat \<Rightarrow> u8) \<Rightarrow> u8 \<Rightarrow> ('f, 'd, 'm) machine \<Rightarrow> error + ('f, 'd, 'm) machine" where
  "i2c_async_send_bytes bsz bytes n q =
     (if \<not> 0 < n then Inl (Assertion_failed ''n > 0'')
      else if \<not> int bsz - uint (buf_length (deref q (back_buffer q))) \<ge> uint n
      then Inl (Assertion_failed ''I2C_BUFFER_SIZE - I2C_QUEUE.back_buffer->length >= n'')
      else case i2c_async_send_bytes_loop
                  (unat (buf_length (deref q (back_buffer q)))) bytes n 0 q of
        Inl e \<Rightarrow> Inl e
      | Inr q1 \<Rightarrow>
          let q2 = store (back_buffer q1)
                     ((deref q1 (back_buffer q1))
                        \<lparr>buf_length := buf_length (deref q1 (back_buffer q1)) + n\<rparr>) q1
          in if \<not> 0 < buf_length (deref q2 (back_buffer q2))
             then Inl (Assertion_failed ''I2C_QUEUE.back_buffer->length > 0'')
             else Inr q2)"

definition i2c_async_send_start :: "nat \<Rightarrow> ('f, 'd, 'm) machine \<Rightarrow> error + ('f, 'd, 'm) machine" where
  "i2c_async_send_start bsz q =
     (if \<not> ring_buffer_can_read_n_elements (tasks q) 1
      then Inl (Assertion_failed ''ring_buffer_assert_can_read_n_elements'')
      else case ring_buffer_get_first (tasks q) of
        Inl e \<Rightarrow> Inl e
      | Inr task \<Rightarrow>
          (case i2c_produce_command bsz I2C_COMMAND_START 0 q of
             Inl e \<Rightarrow> Inl e
           | Inr q1 \<Rightarrow>
               if \<not> (address task AND 1) = 0
               then Inl (Assertion_failed ''(task->address & 1) == 0'')
               else i2c_produce_command bsz I2C_COMMAND_SEND_DATA (address task) q1))"

definition i2c_async_end_transmission :: "nat \<Rightarrow> ('f, 'd, 'm) machine \<Rightarrow> error + ('f, 'd, 'm) machine" where
  "i2c_async_end_transmission bsz q = i2c_produce_command bsz I2C_COMMAND_STOP 0 q"

subsection \<open>Transfer from program storage\<close>

text \<open>\<^verbatim>\<open>transmit_progmem_t\<close>: \<open>ctrl_length\<close> and \<open>ctrl_data\<close> are the fields \<^verbatim>\<open>length\<close> and
  \<^verbatim>\<open>data\<close>; \<open>ctrl_data\<close> is the program storage read by \<^verbatim>\<open>pgm_read_byte\<close>, indexed from the
  pointer. The structures live in the program's memory, a store from addresses to them.\<close>

record transmit_progmem_t =
  ctrl_length :: u16
  counter :: u16
  ctrl_data :: "nat \<Rightarrow> u8"

function i2c_transmit_progmem_cb_loop ::
  "nat \<Rightarrow> 'd \<Rightarrow> u8 \<Rightarrow> ('f, 'd, 'd \<Rightarrow> transmit_progmem_t) machine
     \<Rightarrow> error + ('f, 'd, 'd \<Rightarrow> transmit_progmem_t) machine" where
  "i2c_transmit_progmem_cb_loop bsz cb_data i q =
     (let ctrl = mem q cb_data in
      if i < 16 \<and> counter ctrl < ctrl_length ctrl
      then (case i2c_async_send_byte bsz (ctrl_data ctrl (unat (counter ctrl))) q of
              Inl e \<Rightarrow> Inl e
            | Inr q1 \<Rightarrow>
                i2c_transmit_progmem_cb_loop bsz cb_data (i + 1)
                  (q1\<lparr>mem := (mem q1)(cb_data := (mem q1 cb_data)\<lparr>counter := counter (mem q1 cb_data) + 1\<rparr>)\<rparr>))
      else Inr q)"
  by pat_completeness auto
termination
proof (relation "measure (\<lambda>(bsz, cb_data, i, q). 16 - unat i)")
  show "wf (measure (\<lambda>(bsz :: nat, cb_data :: 'd, i :: u8,
              q :: ('f, 'd, 'd \<Rightarrow> transmit_progmem_t) machine). 16 - unat i))"
    by simp
next
  fix bsz :: nat and cb_data :: 'd and i :: u8
    and q q1 :: "('f, 'd, 'd \<Rightarrow> transmit_progmem_t) machine" and ctrl :: transmit_progmem_t
  assume "i < 16 \<and> counter ctrl < ctrl_length ctrl"
  then have lt: "unat i < 16" by (simp add: word_less_nat_alt)
  then have "unat (i + 1) = unat i + 1"
    by (simp add: unat_word_ariths)
  with lt show "((bsz, cb_data, i + 1,
        q1\<lparr>mem := (mem q1)(cb_data := (mem q1 cb_data)\<lparr>counter := counter (mem q1 cb_data) + 1\<rparr>)\<rparr>),
       (bsz, cb_data, i, q)) \<in> measure (\<lambda>(bsz, cb_data, i, q). 16 - unat i)"
    by simp
qed

declare i2c_transmit_progmem_cb_loop.simps [simp del]

definition i2c_transmit_progmem_cb ::
  "nat \<Rightarrow> 'd \<Rightarrow> ('f, 'd, 'd \<Rightarrow> transmit_progmem_t) machine
     \<Rightarrow> error + (bool \<times> ('f, 'd, 'd \<Rightarrow> transmit_progmem_t) machine)" where
  "i2c_transmit_progmem_cb bsz cb_data q =
     (case (if counter (mem q cb_data) = 0 then i2c_async_send_start bsz q else Inr q) of
        Inl e \<Rightarrow> Inl e
      | Inr q1 \<Rightarrow>
          if counter (mem q1 cb_data) < ctrl_length (mem q1 cb_data)
          then (case i2c_transmit_progmem_cb_loop bsz cb_data 0 q1 of
                  Inl e \<Rightarrow> Inl e
                | Inr q2 \<Rightarrow> Inr (True, q2))
          else (case i2c_async_end_transmission bsz
                       (q1\<lparr>mem := (mem q1)(cb_data := (mem q1 cb_data)\<lparr>counter := 0\<rparr>)\<rparr>) of
                  Inl e \<Rightarrow> Inl e
                | Inr q2 \<Rightarrow> Inr (False, q2)))"

text \<open>\<^verbatim>\<open>i2c_transmit_progmem\<close>: \<open>cb\<close> is the pointer to \<^verbatim>\<open>i2c_transmit_progmem_cb\<close> and \<open>ctrl\<close>
  the address of the local variable \<^verbatim>\<open>ctrl\<close>.\<close>

definition i2c_transmit_progmem ::
  "('f, 'd, 'd \<Rightarrow> transmit_progmem_t) program \<Rightarrow> nat \<Rightarrow> u8 list \<Rightarrow> 'f \<Rightarrow> 'd
     \<Rightarrow> u8 \<Rightarrow> (nat \<Rightarrow> u8) \<Rightarrow> u16 \<Rightarrow> ('f, 'd, 'd \<Rightarrow> transmit_progmem_t) machine
     \<Rightarrow> error + ('f, 'd, 'd \<Rightarrow> transmit_progmem_t) machine" where
  "i2c_transmit_progmem exec fuel irqs cb ctrl addr bytes len q =
     (let q1 = q\<lparr>mem := (mem q)(ctrl := \<lparr>ctrl_length = len, counter = 0, ctrl_data = bytes\<rparr>)\<rparr> in
      case i2c_transmit_async exec fuel addr cb ctrl q1 of
        Inl e \<Rightarrow> Inl e
      | Inr q2 \<Rightarrow> i2c_wait exec fuel irqs q2)"

subsection \<open>Runs of the engine\<close>

text \<open>The engine is entered from program flow by \<^verbatim>\<open>i2c_transmit_async\<close> and from the bus by
  the interrupt handler. A run is any sequence of the two; the first fault ends it.\<close>

datatype ('f, 'd) event = Transmit_async u8 'f 'd | Interrupt u8

fun engine_run ::
  "('f, 'd, 'm) program \<Rightarrow> nat \<Rightarrow> ('f, 'd) event list \<Rightarrow> ('f, 'd, 'm) machine
     \<Rightarrow> error + ('f, 'd, 'm) machine" where
  "engine_run exec fuel [] q = Inr q"
| "engine_run exec fuel (Transmit_async addr cb cb_data # evs) q =
     (case i2c_transmit_async exec fuel addr cb cb_data q of
        Inl e \<Rightarrow> Inl e
      | Inr q1 \<Rightarrow> engine_run exec fuel evs q1)"
| "engine_run exec fuel (Interrupt twsr # evs) q =
     (case TWI_vect exec fuel twsr q of
        Inl e \<Rightarrow> Inl e
      | Inr q1 \<Rightarrow> engine_run exec fuel evs q1)"

text \<open>The static storage before \<^verbatim>\<open>i2c_init\<close>: all bytes zero. The two buffer pointers are
  null in C; here they start at \<^verbatim>\<open>buffer_a\<close> and \<^verbatim>\<open>i2c_init\<close> sets both. \<open>bsz\<close> is
  \<^verbatim>\<open>I2C_BUFFER_SIZE\<close>.\<close>

definition I2C_QUEUE_static :: "nat \<Rightarrow> 'm \<Rightarrow> ('f, 'd, 'm) machine" where
  "I2C_QUEUE_static bsz m =
     \<lparr>tasks = ring_buffer_init 0,
      buffer_a = \<lparr>buf_length = 0, commands = replicate bsz \<lparr>code = 0, data = 0\<rparr>\<rparr>,
      buffer_b = \<lparr>buf_length = 0, commands = replicate bsz \<lparr>code = 0, data = 0\<rparr>\<rparr>,
      front_buffer = Buffer_A, back_buffer = Buffer_A,
      transmitter_active = False, pending_buffer_switch = False,
      tasks_n = 0, front_buffer_cursor = 0,
      current_command = \<lparr>code = 0, data = 0\<rparr>,
      hw_calls = [], sreg_i = True, mem = m, cb_calls = []\<rparr>"

subsection \<open>Vocabulary of the properties\<close>

text \<open>The calls a producer callback makes to append data bytes, and a sequence of them run
  in order as one callback invocation does.\<close>

datatype producer_call = Send_byte u8 | Send_bytes "nat \<Rightarrow> u8" u8

fun producer_calls ::
  "nat \<Rightarrow> producer_call list \<Rightarrow> ('f, 'd, 'm) machine \<Rightarrow> error + ('f, 'd, 'm) machine" where
  "producer_calls bsz [] q = Inr q"
| "producer_calls bsz (Send_byte d # cs) q =
     (case i2c_async_send_byte bsz d q of
        Inl e \<Rightarrow> Inl e
      | Inr q1 \<Rightarrow> producer_calls bsz cs q1)"
| "producer_calls bsz (Send_bytes bytes n # cs) q =
     (case i2c_async_send_bytes bsz bytes n q of
        Inl e \<Rightarrow> Inl e
      | Inr q1 \<Rightarrow> producer_calls bsz cs q1)"

definition back_length :: "('f, 'd, 'm) machine \<Rightarrow> nat" where
  "back_length q = unat (buf_length (deref q (back_buffer q)))"

definition back_capacity :: "('f, 'd, 'm) machine \<Rightarrow> nat" where
  "back_capacity q = length (commands (deref q (back_buffer q)))"

text \<open>What a producer callback must leave alone: the task queue, the task count and the
  history of callback calls. A callback that only uses the producer API does so, and so
  does an interrupt handler that preempts it (no buffer switch is pending while a callback
  runs).\<close>

definition callback_frame :: "('f, 'd, 'm) program \<Rightarrow> bool" where
  "callback_frame exec \<longleftrightarrow>
     (\<forall>f d q keep q'. exec f d q = Inr (keep, q') \<longrightarrow>
        tasks q' = tasks q \<and> tasks_n q' = tasks_n q \<and> cb_calls q' = cb_calls q)"

text \<open>Serving a queue in FIFO order: every call in the list must be a call of the task at
  the head of the queue, and a call that returned \<^verbatim>\<open>false\<close> removes the head. The result is the
  queue that is left, or \<open>None\<close> when some call was not on the head.\<close>

fun fifo_replay :: "'t list \<Rightarrow> ('t \<times> bool \<times> 'c) list \<Rightarrow> 't list option" where
  "fifo_replay ts [] = Some ts"
| "fifo_replay [] (c # cs) = None"
| "fifo_replay (t # ts) ((t', keep, cmds) # cs) =
     (if t' = t then fifo_replay (if keep then t # ts else ts) cs else None)"

text \<open>The number of calls that reported completion.\<close>

definition completions :: "('t \<times> bool \<times> 'c) list \<Rightarrow> nat" where
  "completions cs = length (filter (\<lambda>c. \<not> fst (snd c)) cs)"

text \<open>\<open>same_queue\<close>: task queue, task count and history untouched. \<open>engine_effect\<close>: the
  history grew by calls that serve the queue in FIFO order and the task count went down
  by the number of completed tasks.\<close>

definition same_queue :: "('f, 'd, 'm) machine \<Rightarrow> ('f, 'd, 'm) machine \<Rightarrow> bool" where
  "same_queue q q' \<longleftrightarrow> tasks q' = tasks q \<and> tasks_n q' = tasks_n q \<and> cb_calls q' = cb_calls q"

definition engine_effect :: "('f, 'd, 'm) machine \<Rightarrow> ('f, 'd, 'm) machine \<Rightarrow> bool" where
  "engine_effect q q' \<longleftrightarrow>
     (\<exists>cs. cb_calls q' = cb_calls q @ cs
         \<and> fifo_replay (elements (tasks q)) cs = Some (elements (tasks q'))
         \<and> tasks_n q' + of_nat (completions cs) = tasks_n q
         \<and> elements_max (tasks q') = elements_max (tasks q))"

text \<open>The tasks a run enqueues, in order, and the effect of a run that enqueues \<open>new\<close>.\<close>

fun enqueued :: "('f, 'd) event list \<Rightarrow> ('f, 'd) i2c_task_t list" where
  "enqueued [] = []"
| "enqueued (Transmit_async addr cb cb_data # evs) =
     \<lparr>callback = cb, task_data = cb_data, address = addr\<rparr> # enqueued evs"
| "enqueued (Interrupt twsr # evs) = enqueued evs"

definition run_effect ::
  "('f, 'd) i2c_task_t list \<Rightarrow> ('f, 'd, 'm) machine \<Rightarrow> ('f, 'd, 'm) machine \<Rightarrow> bool" where
  "run_effect new q q' \<longleftrightarrow>
     (\<exists>cs. cb_calls q' = cb_calls q @ cs
         \<and> fifo_replay (elements (tasks q) @ new) cs = Some (elements (tasks q'))
         \<and> tasks_n q' + of_nat (completions cs) = tasks_n q + of_nat (length new)
         \<and> elements_max (tasks q') = elements_max (tasks q)
         \<and> length (elements (tasks q')) \<le> elements_max (tasks q'))"

text \<open>Example states: the engine right after \<^verbatim>\<open>i2c_init\<close> with buffers of four commands and
  a queue of two tasks; the same with one \<^verbatim>\<open>Stop\<close> command produced into the back buffer; and
  a transmitter that has sent its only command and waits in \<^verbatim>\<open>Pending\<close>.\<close>

definition example_idle :: "(unit, unit, unit) machine" where
  "example_idle = i2c_init 2 (I2C_QUEUE_static 4 ())"

definition example_filled :: "(unit, unit, unit) machine" where
  "example_filled =
     store Buffer_B
       \<lparr>buf_length = 1,
        commands = \<lparr>code = I2C_COMMAND_STOP, data = 0\<rparr> # replicate 3 \<lparr>code = 0, data = 0\<rparr>\<rparr>
       example_idle"

definition example_pending :: "(unit, unit, unit) machine" where
  "example_pending =
     (store Buffer_A
        \<lparr>buf_length = 1,
         commands = \<lparr>code = I2C_COMMAND_SEND_DATA, data = 7\<rparr> # replicate 3 \<lparr>code = 0, data = 0\<rparr>\<rparr>
        example_idle)
     \<lparr>front_buffer_cursor := 1, transmitter_active := True, sreg_i := False\<rparr>"

text \<open>A producer callback that emits \<^verbatim>\<open>Start\<close>, the task's address, the data byte 1 and
  \<^verbatim>\<open>Stop\<close> through the producer API and reports completion; a call budget and a run used as
  examples.\<close>

definition example_stream_cb ::
  "nat \<Rightarrow> ('f, 'd, 'm) machine \<Rightarrow> error + (bool \<times> ('f, 'd, 'm) machine)" where
  "example_stream_cb bsz q =
     (case i2c_async_send_start bsz q of
        Inl e \<Rightarrow> Inl e
      | Inr q1 \<Rightarrow>
          (case i2c_async_send_byte bsz 0x01 q1 of
             Inl e \<Rightarrow> Inl e
           | Inr q2 \<Rightarrow>
               (case i2c_async_end_transmission bsz q2 of
                  Inl e \<Rightarrow> Inl e
                | Inr q3 \<Rightarrow> Inr (False, q3))))"

definition example_program :: "(unit, unit, unit) program" where
  "example_program f d = example_stream_cb 4"

definition example_progmem_program :: "(unit, unit, unit \<Rightarrow> transmit_progmem_t) program" where
  "example_progmem_program f = i2c_transmit_progmem_cb 18"

definition example_fuel :: nat where
  "example_fuel = Suc (Suc (Suc (Suc (Suc (Suc 0)))))"

definition example_events :: "(unit, unit) event list" where
  "example_events =
     [Transmit_async 0xA0 () (), Interrupt 0x08, Interrupt 0x18, Interrupt 0x28]"


text \<open>The engine at rest with nothing queued: transmitter inactive, no task, no switch
  pending, the back buffer empty, the front buffer consumed, the two pointers distinct and
  both arrays holding at least \<open>bsz\<close> commands.\<close>

definition engine_parked :: "nat \<Rightarrow> ('f, 'd, 'm) machine \<Rightarrow> bool" where
  "engine_parked bsz q \<longleftrightarrow>
     \<not> transmitter_active q \<and> tasks_n q = 0 \<and> elements (tasks q) = []
     \<and> 0 < elements_max (tasks q) \<and> \<not> pending_buffer_switch q
     \<and> front_buffer q \<noteq> back_buffer q
     \<and> buf_length (deref q (back_buffer q)) = 0
     \<and> front_buffer_cursor q = buf_length (deref q (front_buffer q))
     \<and> bsz \<le> length (commands (buffer_a q)) \<and> bsz \<le> length (commands (buffer_b q))"

text \<open>The \<^verbatim>\<open>SendData\<close> command of a byte.\<close>

definition SendData :: "u8 \<Rightarrow> i2c_command_t" where
  "SendData b = \<lparr>code = I2C_COMMAND_SEND_DATA, data = b\<rparr>"

text \<open>More example states: the engine after \<^verbatim>\<open>i2c_init\<close> in a program whose memory holds
  \<^verbatim>\<open>transmit_progmem_t\<close> structures, with buffers of 18 commands; and a transmitter in the
  middle of a buffer of two data bytes.\<close>

definition example_progmem_idle :: "(unit, unit, unit \<Rightarrow> transmit_progmem_t) machine" where
  "example_progmem_idle =
     i2c_init 2 (I2C_QUEUE_static 18 (\<lambda>p. \<lparr>ctrl_length = 0, counter = 0, ctrl_data = (\<lambda>i. 0)\<rparr>))"

definition example_sending :: "(unit, unit, unit) machine" where
  "example_sending =
     (store Buffer_A
        \<lparr>buf_length = 2,
         commands = [\<lparr>code = I2C_COMMAND_SEND_DATA, data = 7\<rparr>, \<lparr>code = I2C_COMMAND_SEND_DATA, data = 8\<rparr>,
                     \<lparr>code = 0, data = 0\<rparr>, \<lparr>code = 0, data = 0\<rparr>]\<rparr>
        example_idle)
     \<lparr>current_command := \<lparr>code = I2C_COMMAND_SEND_DATA, data = 7\<rparr>, transmitter_active := True\<rparr>"

text \<open>Modelled from the spec: the bus controller itself is not part of the sources. A bus
  primitive with interrupt-driven completion (start condition, byte) triggers exactly one
  later interrupt; a stop condition and the disabling of the interrupt trigger none. Every
  run of the handler ends in a bus primitive, so an interrupt is outstanding exactly when
  the last bus call is a start condition or a byte.\<close>

definition twi_interrupt_pending :: "('f, 'd, 'm) machine \<Rightarrow> bool" where
  "twi_interrupt_pending q =
     (case rev (hw_calls q) of
        [] \<Rightarrow> False
      | c # cs \<Rightarrow>
          (case c of
             Hw_send_start_condition \<Rightarrow> True
           | Hw_send_byte b \<Rightarrow> True
           | _ \<Rightarrow> False))"

text \<open>States for the \<^verbatim>\<open>Pending\<close> step with a buffer switch requested: the front buffer is
  consumed, the back buffer holds two data bytes; without and with a queued task.\<close>

definition example_task :: "(unit, unit) i2c_task_t" where
  "example_task = \<lparr>callback = (), task_data = (), address = 0xA0\<rparr>"

definition example_switch_pending :: "(unit, unit, unit) machine" where
  "example_switch_pending =
     (store Buffer_B
        \<lparr>buf_length = 2,
         commands = [\<lparr>code = I2C_COMMAND_SEND_DATA, data = 9\<rparr>, \<lparr>code = I2C_COMMAND_SEND_DATA, data = 10\<rparr>,
                     \<lparr>code = 0, data = 0\<rparr>, \<lparr>code = 0, data = 0\<rparr>]\<rparr>
        example_pending)
     \<lparr>pending_buffer_switch := True\<rparr>"

definition example_switch_pending_task :: "(unit, unit, unit) machine" where
  "example_switch_pending_task =
     example_switch_pending
       \<lparr>tasks := \<lparr>elements = [example_task], elements_max = 2\<rparr>, tasks_n := 1\<rparr>"

text \<open>A run in which a second task is enqueued while the only buffer of the first is on the
  wire.\<close>

definition example_events3 :: "(unit, unit) event list" where
  "example_events3 =
     [Transmit_async 0xA0 () (), Transmit_async 0x50 () (),
      Interrupt 0x08, Interrupt 0x18, Interrupt 0x28]"


definition no_callback :: "(unit, unit, unit) program" where
  "no_callback f d q = Inl (Assertion_failed ''no callback'')"

subsection \<open>Interrupts while a producer callback runs\<close>

text \<open>The statuses on which the handler goes on to the state machine: the negation of its
  error test.\<close>

definition status_accepted :: "u8 \<Rightarrow> bool" where
  "status_accepted twsr =
     (\<not> (twsr AND TW_STATUS_MASK > TW_MT_DATA_ACK \<or> twsr AND TW_STATUS_MASK = TW_MT_SLA_NACK))"

text \<open>Modelled from the spec: when an interrupt arrives is decided by the bus controller, which
  is not part of the sources. The producer callback runs with interrupts enabled, so the
  handler can run while it does. \<open>preempting_handlers\<close> runs the handler once for each status
  of the list for as long as an interrupt is outstanding; with none outstanding the
  controller raises no interrupt and the rest of the list is not delivered.\<close>

fun preempting_handlers ::
  "('f, 'd, 'm) program \<Rightarrow> nat \<Rightarrow> u8 list \<Rightarrow> ('f, 'd, 'm) machine \<Rightarrow> error + ('f, 'd, 'm) machine" where
  "preempting_handlers exec fuel [] q = Inr q"
| "preempting_handlers exec fuel (twsr # irqs) q =
     (if twi_interrupt_pending q
      then (case TWI_vect exec fuel twsr q of
              Inl e \<Rightarrow> Inl e
            | Inr q1 \<Rightarrow> preempting_handlers exec fuel irqs q1)
      else Inr q)"

text \<open>A callback body pre-empted by handlers. While no buffer switch is pending, which is
  the case whenever a callback runs, the handler and the callback work on disjoint parts
  of the machine: the handler reads the front buffer and writes the cursor, the current
  command, the transmitter flag and the bus; the callback writes the back buffer and its
  own context. A handler that runs in the middle of the callback has the effect of one
  that runs right before or right after it (lemmas \<open>handler_ignores_buffer\<close>,
  \<open>handler_ignores_context\<close> and \<open>produce_command_ignores_consumer\<close>), so \<open>preempted\<close> runs
  handlers before and after the body.\<close>

definition preempted ::
  "(('f, 'd, 'm) machine \<Rightarrow> error + (bool \<times> ('f, 'd, 'm) machine)) \<Rightarrow> ('f, 'd, 'm) program \<Rightarrow> nat
     \<Rightarrow> u8 list \<Rightarrow> u8 list \<Rightarrow> ('f, 'd, 'm) machine \<Rightarrow> error + (bool \<times> ('f, 'd, 'm) machine)" where
  "preempted body exec fuel before after q =
     (case preempting_handlers exec fuel before q of
        Inl e \<Rightarrow> Inl e
      | Inr q1 \<Rightarrow>
          (case body q1 of
             Inl e \<Rightarrow> Inl e
           | Inr (keep, q2) \<Rightarrow>
               (case preempting_handlers exec fuel after q2 of
                  Inl e \<Rightarrow> Inl e
                | Inr q3 \<Rightarrow> Inr (keep, q3))))"

text \<open>A program in which the function pointer \<open>cb\<close> with the context \<open>ctrl\<close> is
  \<^verbatim>\<open>i2c_transmit_progmem_cb\<close>, pre-empted in every call by any number of handlers: the
  statuses that arrive before and after the body may depend on the state in which the
  callback is called. The handlers have a call budget of at least 2 and may run with any
  program: they call no callback, as no buffer switch is pending.\<close>

definition preemptible ::
  "nat \<Rightarrow> ('f, 'd, 'd \<Rightarrow> transmit_progmem_t) program \<Rightarrow> 'f \<Rightarrow> 'd \<Rightarrow> bool" where
  "preemptible bsz exec cb ctrl \<longleftrightarrow>
     (\<forall>q. \<exists>before after exec2 hf.
        2 \<le> hf \<and> (\<forall>s\<in>set before. status_accepted s) \<and> (\<forall>s\<in>set after. status_accepted s)
        \<and> exec cb ctrl q = preempted (i2c_transmit_progmem_cb bsz ctrl) exec2 hf before after q)"

subsection \<open>Vocabulary of a transfer of 40 bytes from program storage\<close>

text \<open>The transfer of 40 bytes to the address \<open>addr\<close>, chunk by chunk: what the \<open>k\<close>-th call
  of \<^verbatim>\<open>i2c_transmit_progmem_cb\<close> appends, the value of \<^verbatim>\<open>counter\<close> after \<open>p\<close> calls, and the
  number of commands in the chunks before the \<open>k\<close>-th.\<close>

definition transfer_chunk :: "u8 \<Rightarrow> (nat \<Rightarrow> u8) \<Rightarrow> nat \<Rightarrow> i2c_command_t list" where
  "transfer_chunk addr bytes k =
     (if k = 0 then \<lparr>code = I2C_COMMAND_START, data = 0\<rparr> # SendData addr
                     # map (\<lambda>i. SendData (bytes i)) [0..<16]
      else if k = 1 then map (\<lambda>i. SendData (bytes i)) [16..<32]
      else if k = 2 then map (\<lambda>i. SendData (bytes i)) [32..<40]
      else [\<lparr>code = I2C_COMMAND_STOP, data = 0\<rparr>])"

definition chunk_counter :: "nat \<Rightarrow> u16" where
  "chunk_counter p = (if p = 1 then 16 else if p = 2 then 32 else if p = 3 then 40 else 0)"

definition chunk_offset :: "nat \<Rightarrow> nat" where
  "chunk_offset k = (if k = 0 then 0 else if k = 1 then 18 else if k = 2 then 34 else 42)"

text \<open>The bus call the state machine makes for a command, and the bus calls of a log other
  than the disabling of the interrupt.\<close>

definition wire :: "i2c_command_t \<Rightarrow> hw_call" where
  "wire c = (if code c = I2C_COMMAND_START then Hw_send_start_condition
             else if code c = I2C_COMMAND_STOP then Hw_send_stop_condition
             else Hw_send_byte (data c))"

definition bus_calls :: "hw_call list \<Rightarrow> hw_call list" where
  "bus_calls cs = filter (\<lambda>c. c \<noteq> Hw_disable_int) cs"

text \<open>The consumer side during the transfer: the front buffer holds the chunk \<open>i\<close>, the
  cursor is within it, the current command is the command under the cursor or \<^verbatim>\<open>Pending\<close>
  at the end of the buffer, and the bus calls made since the log \<open>h0\<close> are those of the
  commands before the cursor. \<open>on_wire\<close>: the transmitter is active exactly while an
  interrupt is outstanding, it is active before the end of the buffer and inactive after
  the \<^verbatim>\<open>Stop\<close> command.\<close>

definition front_holds :: "u8 \<Rightarrow> (nat \<Rightarrow> u8) \<Rightarrow> hw_call list \<Rightarrow> nat \<Rightarrow> ('f, 'd, 'm) machine \<Rightarrow> bool" where
  "front_holds addr bytes h0 i q \<longleftrightarrow>
     i \<le> 3 \<and> front_buffer q \<noteq> back_buffer q
     \<and> 18 \<le> length (commands (deref q (front_buffer q)))
     \<and> 18 \<le> length (commands (deref q (back_buffer q)))
     \<and> unat (buf_length (deref q (front_buffer q))) = length (transfer_chunk addr bytes i)
     \<and> take (length (transfer_chunk addr bytes i)) (commands (deref q (front_buffer q)))
          = transfer_chunk addr bytes i
     \<and> unat (front_buffer_cursor q) \<le> length (transfer_chunk addr bytes i)
     \<and> (unat (front_buffer_cursor q) < length (transfer_chunk addr bytes i) \<longrightarrow>
          current_command q = transfer_chunk addr bytes i ! unat (front_buffer_cursor q))
     \<and> (unat (front_buffer_cursor q) = length (transfer_chunk addr bytes i) \<longrightarrow>
          code (current_command q) = I2C_COMMAND_PENDING)
     \<and> (\<exists>new. hw_calls q = h0 @ new
           \<and> bus_calls new = map wire (concat (map (transfer_chunk addr bytes) [0..<i])
                                @ take (unat (front_buffer_cursor q)) (transfer_chunk addr bytes i)))"

definition on_wire :: "u8 \<Rightarrow> (nat \<Rightarrow> u8) \<Rightarrow> nat \<Rightarrow> ('f, 'd, 'm) machine \<Rightarrow> bool" where
  "on_wire addr bytes i q \<longleftrightarrow>
     (unat (front_buffer_cursor q) < length (transfer_chunk addr bytes i) \<longrightarrow> transmitter_active q)
     \<and> (unat (front_buffer_cursor q) = length (transfer_chunk addr bytes i) \<and> i = 3 \<longrightarrow>
          \<not> transmitter_active q)
     \<and> transmitter_active q = twi_interrupt_pending q"

text \<open>The producer side: the back buffer holds the chunk \<open>k\<close>; and after \<open>p\<close> chunks were
  produced and \<open>j\<close> callback calls recorded, the context, the task queue, the task count
  and the history of calls.\<close>

definition back_holds :: "u8 \<Rightarrow> (nat \<Rightarrow> u8) \<Rightarrow> nat \<Rightarrow> ('f, 'd, 'm) machine \<Rightarrow> bool" where
  "back_holds addr bytes k q \<longleftrightarrow>
     unat (buf_length (deref q (back_buffer q))) = length (transfer_chunk addr bytes k)
     \<and> take (length (transfer_chunk addr bytes k)) (commands (deref q (back_buffer q)))
          = transfer_chunk addr bytes k"

definition chunks_made ::
  "u8 \<Rightarrow> (nat \<Rightarrow> u8) \<Rightarrow> 'f \<Rightarrow> 'd \<Rightarrow> (('f, 'd) i2c_task_t \<times> bool \<times> i2c_command_t list) list
     \<Rightarrow> nat \<Rightarrow> nat \<Rightarrow> ('f, 'd, 'd \<Rightarrow> transmit_progmem_t) machine \<Rightarrow> bool" where
  "chunks_made addr bytes cb ctrl c0 p j q \<longleftrightarrow>
     mem q ctrl = \<lparr>ctrl_length = 40, counter = chunk_counter p, ctrl_data = bytes\<rparr>
     \<and> elements (tasks q) =
          (if j < 4 then [\<lparr>callback = cb, task_data = ctrl, address = addr\<rparr>] else [])
     \<and> tasks_n q = (if j < 4 then 1 else 0)
     \<and> cb_calls q = c0 @ map (\<lambda>k. (\<lparr>callback = cb, task_data = ctrl, address = addr\<rparr>, k < 3,
                                    transfer_chunk addr bytes k)) [0..<j]"

text \<open>The states of the transfer at three points of the code: at the head of the loop of
  \<^verbatim>\<open>i2c_queue_fetch_commands\<close> and while the callback runs (the back buffer empty), when
  the callback has returned (the back buffer filled, the call not yet recorded), and
  while the program is outside the engine (a switch to the filled back buffer is pending,
  or the last chunk is in the front buffer).\<close>

definition loop_entry ::
  "u8 \<Rightarrow> (nat \<Rightarrow> u8) \<Rightarrow> 'f \<Rightarrow> 'd \<Rightarrow> hw_call list
     \<Rightarrow> (('f, 'd) i2c_task_t \<times> bool \<times> i2c_command_t list) list
     \<Rightarrow> nat \<Rightarrow> ('f, 'd, 'd \<Rightarrow> transmit_progmem_t) machine \<Rightarrow> bool" where
  "loop_entry addr bytes cb ctrl h0 c0 i q \<longleftrightarrow>
     i \<le> 2 \<and> front_holds addr bytes h0 i q \<and> on_wire addr bytes i q
     \<and> \<not> pending_buffer_switch q \<and> buf_length (deref q (back_buffer q)) = 0
     \<and> chunks_made addr bytes cb ctrl c0 (i + 1) (i + 1) q"

definition after_callback ::
  "u8 \<Rightarrow> (nat \<Rightarrow> u8) \<Rightarrow> 'f \<Rightarrow> 'd \<Rightarrow> hw_call list
     \<Rightarrow> (('f, 'd) i2c_task_t \<times> bool \<times> i2c_command_t list) list
     \<Rightarrow> nat \<Rightarrow> ('f, 'd, 'd \<Rightarrow> transmit_progmem_t) machine \<Rightarrow> bool" where
  "after_callback addr bytes cb ctrl h0 c0 i q \<longleftrightarrow>
     i \<le> 2 \<and> front_holds addr bytes h0 i q \<and> on_wire addr bytes i q
     \<and> \<not> pending_buffer_switch q \<and> back_holds addr bytes (i + 1) q
     \<and> chunks_made addr bytes cb ctrl c0 (i + 2) (i + 1) q"

definition waiting ::
  "u8 \<Rightarrow> (nat \<Rightarrow> u8) \<Rightarrow> 'f \<Rightarrow> 'd \<Rightarrow> hw_call list
     \<Rightarrow> (('f, 'd) i2c_task_t \<times> bool \<times> i2c_command_t list) list
     \<Rightarrow> nat \<Rightarrow> ('f, 'd, 'd \<Rightarrow> transmit_progmem_t) machine \<Rightarrow> bool" where
  "waiting addr bytes cb ctrl h0 c0 i q \<longleftrightarrow>
     front_holds addr bytes h0 i q \<and> on_wire addr bytes i q
     \<and> (if i \<le> 2
         then pending_buffer_switch q \<and> transmitter_active q \<and> back_holds addr bytes (i + 1) q
              \<and> chunks_made addr bytes cb ctrl c0 (i + 2) (i + 2) q
         else \<not> pending_buffer_switch q \<and> buf_length (deref q (back_buffer q)) = 0
              \<and> chunks_made addr bytes cb ctrl c0 4 4 q)"

text \<open>The number of commands of the transfer issued to the bus so far.\<close>

definition issued :: "nat \<Rightarrow> ('f, 'd, 'm) machine \<Rightarrow> nat" where
  "issued i q = chunk_offset i + unat (front_buffer_cursor q)"

text \<open>What the steps of the transfer leave alone: a handler without a buffer switch, the
  buffer switch, the producer callback, and all of the consumer.\<close>

definition consumer_frame :: "('f, 'd, 'm) machine \<Rightarrow> ('f, 'd, 'm) machine \<Rightarrow> bool" where
  "consumer_frame q q' \<longleftrightarrow>
     buffer_a q' = buffer_a q \<and> buffer_b q' = buffer_b q \<and> front_buffer q' = front_buffer q
     \<and> back_buffer q' = back_buffer q \<and> pending_buffer_switch q' = pending_buffer_switch q
     \<and> tasks q' = tasks q \<and> tasks_n q' = tasks_n q \<and> mem q' = mem q \<and> cb_calls q' = cb_calls q"

definition switch_frame :: "('f, 'd, 'm) machine \<Rightarrow> ('f, 'd, 'm) machine \<Rightarrow> bool" where
  "switch_frame q q' \<longleftrightarrow>
     hw_calls q' = hw_calls q \<and> transmitter_active q' = transmitter_active q
     \<and> tasks q' = tasks q \<and> tasks_n q' = tasks_n q \<and> mem q' = mem q \<and> cb_calls q' = cb_calls q
     \<and> sreg_i q' = sreg_i q"

definition producer_frame :: "('f, 'd, 'm) machine \<Rightarrow> ('f, 'd, 'm) machine \<Rightarrow> bool" where
  "producer_frame q q' \<longleftrightarrow>
     front_buffer q' = front_buffer q \<and> back_buffer q' = back_buffer q
     \<and> front_buffer_cursor q' = front_buffer_cursor q \<and> current_command q' = current_command q
     \<and> hw_calls q' = hw_calls q \<and> transmitter_active q' = transmitter_active q
     \<and> pending_buffer_switch q' = pending_buffer_switch q
     \<and> tasks q' = tasks q \<and> tasks_n q' = tasks_n q \<and> cb_calls q' = cb_calls q
     \<and> sreg_i q' = sreg_i q"

definition queue_frame :: "('f, 'd, 'm) machine \<Rightarrow> ('f, 'd, 'm) machine \<Rightarrow> bool" where
  "queue_frame q q' \<longleftrightarrow>
     tasks q' = tasks q \<and> tasks_n q' = tasks_n q \<and> mem q' = mem q \<and> cb_calls q' = cb_calls q"

text \<open>An example of pre-emption: after every call of the callback up to 20 interrupts are
  served before control returns to the fetch loop.\<close>

definition example_preempting_program :: "(unit, unit, unit \<Rightarrow> transmit_progmem_t) program" where
  "example_preempting_program f d =
     preempted (i2c_transmit_progmem_cb 18 d) example_progmem_program (Suc (Suc 0)) []
       (replicate 20 TW_MT_DATA_ACK)"

section \<open>Properties\<close>

lemmas I2C_COMMAND_defs =
  I2C_COMMAND_START_def I2C_COMMAND_SEND_DATA_def I2C_COMMAND_STOP_def I2C_COMMAND_PENDING_def

lemmas example_defs =
  example_idle_def example_filled_def example_pending_def i2c_init_def I2C_QUEUE_static_def
  i2c_hw_init_def ring_buffer_init_def deref_def store_def Let_def

lemmas engine_defs =
  i2c_transmit_async_def i2c_is_idle_def TWI_vect_def i2c_queue_switch_buffers_def
  i2c_queue_switch_tasks_def ring_buffer_append_def ring_buffer_get_first_def
  ring_buffer_discard_def ring_buffer_can_read_n_elements_def ring_buffer_can_write_n_elements_def
  read_command_def write_command_def i2c_produce_command_def i2c_async_send_byte_def
  i2c_async_send_start_def i2c_async_end_transmission_def
  i2c_hw_send_start_condition_int_def i2c_hw_send_byte_int_def i2c_hw_send_stop_condition_def
  i2c_hw_disable_int_def buffer_contents_def I2C_COMMAND_defs
  TW_STATUS_MASK_def TW_MT_SLA_NACK_def TW_MT_DATA_ACK_def

lemmas example_defs2 = example_switch_pending_def example_switch_pending_task_def example_task_def

lemma take_step:
  "0 < n \<Longrightarrow> n \<le> length xs \<Longrightarrow> take n xs = take (n - 1) xs @ [xs ! (n - 1)]"
  by (cases n) (simp_all add: take_Suc_conv_app_nth)

subsection \<open>Buffers behind the two pointers\<close>

lemma deref_store [simp]: "deref (store p b q) p' = (if p = p' then b else deref q p')"
  by (cases p; cases p') (simp_all add: deref_def store_def)

lemma store_fields [simp]:
  "tasks (store p b q) = tasks q"
  "front_buffer (store p b q) = front_buffer q"
  "back_buffer (store p b q) = back_buffer q"
  "transmitter_active (store p b q) = transmitter_active q"
  "pending_buffer_switch (store p b q) = pending_buffer_switch q"
  "tasks_n (store p b q) = tasks_n q"
  "front_buffer_cursor (store p b q) = front_buffer_cursor q"
  "current_command (store p b q) = current_command q"
  "hw_calls (store p b q) = hw_calls q"
  "sreg_i (store p b q) = sreg_i q"
  "mem (store p b q) = mem q"
  "cb_calls (store p b q) = cb_calls q"
  by (cases p; simp add: store_def)+

lemma deref_updates [simp]:
  "deref (q\<lparr>tasks := a1\<rparr>) p = deref q p"
  "deref (q\<lparr>front_buffer := a2\<rparr>) p = deref q p"
  "deref (q\<lparr>back_buffer := a3\<rparr>) p = deref q p"
  "deref (q\<lparr>transmitter_active := a4\<rparr>) p = deref q p"
  "deref (q\<lparr>pending_buffer_switch := a5\<rparr>) p = deref q p"
  "deref (q\<lparr>tasks_n := a6\<rparr>) p = deref q p"
  "deref (q\<lparr>front_buffer_cursor := a7\<rparr>) p = deref q p"
  "deref (q\<lparr>current_command := a8\<rparr>) p = deref q p"
  "deref (q\<lparr>hw_calls := a9\<rparr>) p = deref q p"
  "deref (q\<lparr>sreg_i := a10\<rparr>) p = deref q p"
  "deref (q\<lparr>mem := a11\<rparr>) p = deref q p"
  "deref (q\<lparr>cb_calls := a12\<rparr>) p = deref q p"
  by (cases p; simp add: deref_def)+

subsection \<open>The buffer switch\<close>

text \<open>
  C2. A buffer switch goes through only when the back buffer's length is greater than 0
  and the front-buffer cursor equals the front buffer's length (otherwise the assertions
  fault). After it the front pointer is the former back pointer and the buffer behind it
  is the formerly filled back buffer, the cursor is 0, the current command is the command
  at position 0 of the new front buffer, and the new back buffer has length 0. The two
  pointers are distinct, as \<^verbatim>\<open>i2c_init\<close> sets them.
\<close>

theorem switch_buffers_swap:
  assumes "i2c_queue_switch_buffers q = Inr q'" and "front_buffer q \<noteq> back_buffer q"
  shows "0 < buf_length (deref q (back_buffer q))
       \<and> front_buffer_cursor q = buf_length (deref q (front_buffer q))
       \<and> front_buffer q' = back_buffer q
       \<and> deref q' (front_buffer q') = deref q (back_buffer q)
       \<and> front_buffer_cursor q' = 0
       \<and> read_command (deref q' (front_buffer q')) 0 = Inr (current_command q')
       \<and> back_buffer q' = front_buffer q
       \<and> buf_length (deref q' (back_buffer q')) = 0"
  using assms
  by (auto simp: i2c_queue_switch_buffers_def Let_def split: if_splits sum.splits)

theorem switch_buffers_swap_witness:
  "\<exists>q'. i2c_queue_switch_buffers example_filled = Inr q'
        \<and> front_buffer example_filled \<noteq> back_buffer example_filled
        \<and> front_buffer q' = Buffer_B \<and> back_buffer q' = Buffer_A
        \<and> front_buffer_cursor q' = 0
        \<and> current_command q' = \<lparr>code = I2C_COMMAND_STOP, data = 0\<rparr>
        \<and> buf_length (deref q' (back_buffer q')) = 0"
proof -
  have ne: "front_buffer example_filled \<noteq> back_buffer example_filled"
    by (simp add: example_defs)
  obtain q' where sw: "i2c_queue_switch_buffers example_filled = Inr q'"
    by (simp add: i2c_queue_switch_buffers_def read_command_def example_defs)
  have bk: "back_buffer example_filled = Buffer_B"
    and cmd: "read_command (deref example_filled Buffer_B) 0 = Inr \<lparr>code = I2C_COMMAND_STOP, data = 0\<rparr>"
    and fr: "front_buffer example_filled = Buffer_A"
    by (simp_all add: read_command_def example_defs)
  from switch_buffers_swap [OF sw ne] sw ne bk cmd fr show ?thesis
    by auto
qed

subsection \<open>The \<^verbatim>\<open>Pending\<close> step of the state machine\<close>

text \<open>
  C5. When \<^verbatim>\<open>i2c_queue_process_command\<close> runs (its entry assertions hold) with the current
  command \<^verbatim>\<open>Pending\<close>. If \<^verbatim>\<open>pending_buffer_switch\<close> is clear it disables the bus transmit
  interrupt and clears \<^verbatim>\<open>transmitter_active\<close>, and nothing else of the engine state changes.
  If the flag is set (and the switch's own preconditions hold) the step is the processing
  of the current command in the switched state, followed by the fetch cycle if tasks
  remain queued; the switched state is written out: the two buffer pointers exchanged, the
  flag cleared, the new back buffer emptied, the cursor 0 and the current command reloaded
  from position 0 of the filled buffer. That the reloaded command is processed in the same
  step is also shown on the result: when it is a data byte, more commands follow it and no
  task is queued, the step ends in the switched state with this byte sent, the cursor 1
  and the next command loaded.
\<close>

theorem process_command_pending:
  assumes "code (current_command q) = I2C_COMMAND_PENDING"
    and "\<not> sreg_i q" and "transmitter_active q"
    and "0 < buf_length (deref q (front_buffer q))"
    and "front_buffer_cursor q \<le> buf_length (deref q (front_buffer q))"
  shows "(\<not> pending_buffer_switch q \<longrightarrow>
            i2c_queue_process_command exec (Suc n) q =
              Inr (q\<lparr>transmitter_active := False, hw_calls := hw_calls q @ [Hw_disable_int]\<rparr>))
       \<and> (pending_buffer_switch q \<and> front_buffer q \<noteq> back_buffer q
            \<and> 0 < buf_length (deref q (back_buffer q))
            \<and> front_buffer_cursor q = buf_length (deref q (front_buffer q))
            \<and> 1 < length (commands (deref q (back_buffer q))) \<longrightarrow>
            (let filled = deref q (back_buffer q);
                 swapped = (store (front_buffer q) ((deref q (front_buffer q))\<lparr>buf_length := 0\<rparr>)
                              (q\<lparr>back_buffer := front_buffer q, front_buffer := back_buffer q,
                                 pending_buffer_switch := False\<rparr>))
                             \<lparr>front_buffer_cursor := 0, current_command := commands filled ! 0\<rparr>
             in i2c_queue_process_command exec (Suc n) q =
                  (case i2c_queue_process_command exec n swapped of
                     Inl e \<Rightarrow> Inl e
                   | Inr q2 \<Rightarrow>
                       if 0 < tasks_n q2 then i2c_queue_fetch_commands exec n q2 else Inr q2)
              \<and> (code (commands filled ! 0) = I2C_COMMAND_SEND_DATA \<and> 1 < buf_length filled
                    \<and> tasks_n q = 0 \<longrightarrow>
                    i2c_queue_process_command exec (Suc (Suc (Suc n))) q =
                      Inr (swapped\<lparr>hw_calls := hw_calls q @ [Hw_send_byte (data (commands filled ! 0))],
                                  front_buffer_cursor := 1,
                                  current_command := commands filled ! 1\<rparr>))))"
proof (intro conjI impI)
  assume "\<not> pending_buffer_switch q"
  with assms show "i2c_queue_process_command exec (Suc n) q =
      Inr (q\<lparr>transmitter_active := False, hw_calls := hw_calls q @ [Hw_disable_int]\<rparr>)"
    by (simp add: I2C_COMMAND_defs i2c_hw_disable_int_def)
next
  assume h: "pending_buffer_switch q \<and> front_buffer q \<noteq> back_buffer q
            \<and> 0 < buf_length (deref q (back_buffer q))
            \<and> front_buffer_cursor q = buf_length (deref q (front_buffer q))
            \<and> 1 < length (commands (deref q (back_buffer q)))"
  then have ne: "commands (deref q (back_buffer q)) \<noteq> []" by auto
  from assms h ne show "let filled = deref q (back_buffer q);
                 swapped = (store (front_buffer q) ((deref q (front_buffer q))\<lparr>buf_length := 0\<rparr>)
                              (q\<lparr>back_buffer := front_buffer q, front_buffer := back_buffer q,
                                 pending_buffer_switch := False\<rparr>))
                             \<lparr>front_buffer_cursor := 0, current_command := commands filled ! 0\<rparr>
             in i2c_queue_process_command exec (Suc n) q =
                  (case i2c_queue_process_command exec n swapped of
                     Inl e \<Rightarrow> Inl e
                   | Inr q2 \<Rightarrow>
                       if 0 < tasks_n q2 then i2c_queue_fetch_commands exec n q2 else Inr q2)
              \<and> (code (commands filled ! 0) = I2C_COMMAND_SEND_DATA \<and> 1 < buf_length filled
                    \<and> tasks_n q = 0 \<longrightarrow>
                    i2c_queue_process_command exec (Suc (Suc (Suc n))) q =
                      Inr (swapped\<lparr>hw_calls := hw_calls q @ [Hw_send_byte (data (commands filled ! 0))],
                                  front_buffer_cursor := 1,
                                  current_command := commands filled ! 1\<rparr>))"
    apply (cases "front_buffer q"; cases "back_buffer q")
       apply (simp_all add: Let_def I2C_COMMAND_defs i2c_queue_switch_buffers_def read_command_def
        deref_def store_def i2c_hw_send_byte_int_def)
    done
qed


theorem process_command_pending_witness:
  "code (current_command example_pending) = I2C_COMMAND_PENDING
   \<and> \<not> sreg_i example_pending \<and> transmitter_active example_pending
   \<and> 0 < buf_length (deref example_pending (front_buffer example_pending))
   \<and> front_buffer_cursor example_pending
        \<le> buf_length (deref example_pending (front_buffer example_pending))
   \<and> \<not> pending_buffer_switch example_pending
   \<and> i2c_queue_process_command no_callback (Suc 0) example_pending =
        Inr (example_pending\<lparr>transmitter_active := False, hw_calls := [Hw_init, Hw_disable_int]\<rparr>)
   \<and> pending_buffer_switch example_switch_pending
   \<and> tasks_n example_switch_pending = 0
   \<and> i2c_queue_process_command no_callback (Suc (Suc (Suc 0))) example_switch_pending =
        Inr (example_switch_pending
               \<lparr>front_buffer := Buffer_B, back_buffer := Buffer_A,
                buffer_a := (buffer_a example_switch_pending)\<lparr>buf_length := 0\<rparr>,
                pending_buffer_switch := False, front_buffer_cursor := 1,
                current_command := \<lparr>code = I2C_COMMAND_SEND_DATA, data = 10\<rparr>,
                hw_calls := [Hw_init, Hw_send_byte 9]\<rparr>)
   \<and> pending_buffer_switch example_switch_pending_task
   \<and> 0 < tasks_n example_switch_pending_task
   \<and> (\<exists>q'. i2c_queue_process_command example_program example_fuel example_switch_pending_task
               = Inr q'
          \<and> front_buffer q' = Buffer_B \<and> front_buffer_cursor q' = 1
          \<and> hw_calls q' = [Hw_init, Hw_send_byte 9]
          \<and> map fst (cb_calls q') = [example_task]
          \<and> pending_buffer_switch q')"
proof -
  have h: "code (current_command example_pending) = I2C_COMMAND_PENDING"
    "\<not> sreg_i example_pending" "transmitter_active example_pending"
    "0 < buf_length (deref example_pending (front_buffer example_pending))"
    "front_buffer_cursor example_pending
        \<le> buf_length (deref example_pending (front_buffer example_pending))"
    by (simp_all add: example_defs)
  have p: "\<not> pending_buffer_switch example_pending" "hw_calls example_pending = [Hw_init]"
    by (simp_all add: example_defs)
  have h2: "code (current_command example_switch_pending) = I2C_COMMAND_PENDING"
    "\<not> sreg_i example_switch_pending" "transmitter_active example_switch_pending"
    "0 < buf_length (deref example_switch_pending (front_buffer example_switch_pending))"
    "front_buffer_cursor example_switch_pending
        \<le> buf_length (deref example_switch_pending (front_buffer example_switch_pending))"
    by (simp_all add: example_defs example_defs2)
  have h3: "code (current_command example_switch_pending_task) = I2C_COMMAND_PENDING"
    "\<not> sreg_i example_switch_pending_task" "transmitter_active example_switch_pending_task"
    "0 < buf_length (deref example_switch_pending_task (front_buffer example_switch_pending_task))"
    "front_buffer_cursor example_switch_pending_task
        \<le> buf_length (deref example_switch_pending_task (front_buffer example_switch_pending_task))"
    by (simp_all add: example_defs example_defs2)
  have a: "i2c_queue_process_command no_callback (Suc 0) example_pending =
        Inr (example_pending\<lparr>transmitter_active := False, hw_calls := [Hw_init, Hw_disable_int]\<rparr>)"
    using process_command_pending [OF h, of no_callback 0] p by simp
  have b: "i2c_queue_process_command no_callback (Suc (Suc (Suc 0))) example_switch_pending =
        Inr (example_switch_pending
               \<lparr>front_buffer := Buffer_B, back_buffer := Buffer_A,
                buffer_a := (buffer_a example_switch_pending)\<lparr>buf_length := 0\<rparr>,
                pending_buffer_switch := False, front_buffer_cursor := 1,
                current_command := \<lparr>code = I2C_COMMAND_SEND_DATA, data = 10\<rparr>,
                hw_calls := [Hw_init, Hw_send_byte 9]\<rparr>)"
    using process_command_pending [OF h2, of no_callback 0]
    by (simp add: Let_def example_defs example_defs2 I2C_COMMAND_defs)
  have c: "\<exists>q'. i2c_queue_process_command example_program example_fuel example_switch_pending_task
               = Inr q'
          \<and> front_buffer q' = Buffer_B \<and> front_buffer_cursor q' = 1
          \<and> hw_calls q' = [Hw_init, Hw_send_byte 9]
          \<and> map fst (cb_calls q') = [example_task]
          \<and> pending_buffer_switch q'"
    using process_command_pending [OF h3, of example_program "Suc (Suc (Suc (Suc (Suc 0))))"]
    by (simp add: Let_def example_fuel_def example_defs example_defs2 I2C_COMMAND_defs
        example_program_def example_stream_cb_def engine_defs take_step)
  have d: "pending_buffer_switch example_switch_pending" "tasks_n example_switch_pending = 0"
    "pending_buffer_switch example_switch_pending_task" "0 < tasks_n example_switch_pending_task"
    by (simp_all add: example_defs example_defs2)
  from h p a b c d show ?thesis by blast
qed

subsection \<open>Capacity of the back buffer\<close>

lemma write_command_back:
  "write_command (back_buffer q) i c q = Inr q' \<Longrightarrow>
     back_buffer q' = back_buffer q \<and> back_length q' = back_length q
     \<and> back_capacity q' = back_capacity q"
  by (auto simp: write_command_def Let_def back_length_def back_capacity_def split: if_splits)

lemma write_command_ok:
  "i < back_capacity q \<Longrightarrow> \<exists>q'. write_command (back_buffer q) i c q = Inr q'"
  by (simp add: write_command_def Let_def back_capacity_def)

lemma int_room: "(uint n \<le> int bsz - uint w) = (unat w + unat n \<le> bsz)"
  unfolding uint_nat by linarith

lemma int_room1: "(1 \<le> int bsz - uint w) = (unat w + 1 \<le> bsz)"
  unfolding uint_nat by linarith

lemma unat_plus_le: "unat (a + b) \<le> unat a + unat b" for a b :: "'a::len word"
  by (simp add: unat_word_ariths)

lemma produce_command_length:
  assumes "i2c_produce_command bsz c d q = Inr q'"
  shows "back_buffer q' = back_buffer q \<and> back_length q + 1 \<le> bsz \<and> back_length q' \<le> bsz
     \<and> back_capacity q' = back_capacity q"
proof -
  from assms have room: "back_length q + 1 \<le> bsz"
    by (simp add: i2c_produce_command_def int_room1 back_length_def split: if_splits)
  from assms obtain q1 where w: "write_command (back_buffer q) (back_length q) \<lparr>code = c, data = d\<rparr> q = Inr q1"
    and q': "q' = store (back_buffer q1) ((deref q1 (back_buffer q1))\<lparr>buf_length := buf_length (deref q1 (back_buffer q1)) + 1\<rparr>) q1"
    by (auto simp: i2c_produce_command_def back_length_def split: if_splits sum.splits)
  from write_command_back [OF w] have k: "back_buffer q1 = back_buffer q" "back_length q1 = back_length q"
    "back_capacity q1 = back_capacity q" by simp_all
  have "back_length q' = unat (buf_length (deref q1 (back_buffer q1)) + 1)"
    by (simp add: q' back_length_def)
  also have "\<dots> \<le> back_length q1 + 1"
    using unat_plus_le [of "buf_length (deref q1 (back_buffer q1))" 1] by (simp add: back_length_def)
  finally have "back_length q' \<le> bsz" using room k by simp
  moreover have "back_buffer q' = back_buffer q" by (simp add: q' k)
  moreover have "back_capacity q' = back_capacity q" using k by (simp add: q' back_capacity_def)
  ultimately show ?thesis using room by simp
qed

lemma send_bytes_loop_back:
  "i2c_async_send_bytes_loop base bytes n i q = Inr q' \<Longrightarrow>
     back_buffer q' = back_buffer q \<and> back_length q' = back_length q \<and> back_capacity q' = back_capacity q"
proof (induction base bytes n i q rule: i2c_async_send_bytes_loop.induct)
  case (1 base bytes n i q)
  show ?case
  proof (cases "i < n")
    case True
    with "1.prems" obtain q1 where w: "write_command (back_buffer q) (base + unat i)
        \<lparr>code = I2C_COMMAND_SEND_DATA, data = bytes (unat i)\<rparr> q = Inr q1"
      and r: "i2c_async_send_bytes_loop base bytes n (i + 1) q1 = Inr q'"
      by (subst (asm) i2c_async_send_bytes_loop.simps) (auto split: sum.splits)
    from "1.IH" [OF True w r] write_command_back [OF w] show ?thesis by simp
  next
    case False
    with "1.prems" show ?thesis
      by (subst (asm) i2c_async_send_bytes_loop.simps) simp
  qed
qed

lemma send_bytes_length:
  assumes "i2c_async_send_bytes bsz bytes n q = Inr q'"
  shows "back_buffer q' = back_buffer q \<and> back_length q + unat n \<le> bsz \<and> back_length q' \<le> bsz
     \<and> back_capacity q' = back_capacity q"
proof -
  from assms have room: "back_length q + unat n \<le> bsz"
    by (simp add: i2c_async_send_bytes_def int_room back_length_def split: if_splits)
  from assms obtain q1 where l: "i2c_async_send_bytes_loop (back_length q) bytes n 0 q = Inr q1"
    and q': "q' = store (back_buffer q1) ((deref q1 (back_buffer q1))\<lparr>buf_length := buf_length (deref q1 (back_buffer q1)) + n\<rparr>) q1"
    by (auto simp: i2c_async_send_bytes_def back_length_def Let_def split: if_splits sum.splits)
  from send_bytes_loop_back [OF l] have k: "back_buffer q1 = back_buffer q" "back_length q1 = back_length q"
    "back_capacity q1 = back_capacity q" by simp_all
  have "back_length q' = unat (buf_length (deref q1 (back_buffer q1)) + n)"
    by (simp add: q' back_length_def)
  also have "\<dots> \<le> back_length q1 + unat n"
    using unat_plus_le [of "buf_length (deref q1 (back_buffer q1))" n] by (simp add: back_length_def)
  finally have "back_length q' \<le> bsz" using room k by simp
  moreover have "back_buffer q' = back_buffer q" by (simp add: q' k)
  moreover have "back_capacity q' = back_capacity q" using k by (simp add: q' back_capacity_def)
  ultimately show ?thesis using room by simp
qed

lemma producer_calls_length:
  "producer_calls bsz calls q = Inr q' \<Longrightarrow> back_length q \<le> bsz \<Longrightarrow> back_length q' \<le> bsz"
proof (induction bsz calls q rule: producer_calls.induct)
  case (1 bsz q)
  then show ?case by simp
next
  case (2 bsz d cs q)
  then show ?case by (auto split: sum.splits simp: i2c_async_send_byte_def dest: produce_command_length)
next
  case (3 bsz bytes n cs q)
  then show ?case by (auto split: sum.splits dest: send_bytes_length)
qed

lemma send_byte_full:
  "bsz < back_length q + 1 \<Longrightarrow> i2c_async_send_byte bsz d q =
     Inl (Assertion_failed ''I2C_BUFFER_SIZE - I2C_QUEUE.back_buffer->length >= 1'')"
  by (simp add: i2c_async_send_byte_def i2c_produce_command_def int_room1 back_length_def)

lemma send_bytes_full:
  "0 < n \<Longrightarrow> bsz < back_length q + unat n \<Longrightarrow> i2c_async_send_bytes bsz bytes n q =
     Inl (Assertion_failed ''I2C_BUFFER_SIZE - I2C_QUEUE.back_buffer->length >= n'')"
  by (simp add: i2c_async_send_bytes_def int_room back_length_def)

lemma send_bytes_loop_ok:
  "base + unat n \<le> back_capacity q \<Longrightarrow> \<exists>q'. i2c_async_send_bytes_loop base bytes n i q = Inr q'"
proof (induction base bytes n i q rule: i2c_async_send_bytes_loop.induct)
  case (1 base bytes n i q)
  show ?case
  proof (cases "i < n")
    case True
    then have "base + unat i < back_capacity q"
      using "1.prems" by (simp add: word_less_nat_alt)
    from write_command_ok [OF this] obtain q1 where
      w: "write_command (back_buffer q) (base + unat i)
            \<lparr>code = I2C_COMMAND_SEND_DATA, data = bytes (unat i)\<rparr> q = Inr q1" by blast
    from write_command_back [OF w] "1.prems" have "base + unat n \<le> back_capacity q1" by simp
    from "1.IH" [OF True w this] w True show ?thesis
      by (subst i2c_async_send_bytes_loop.simps) simp
  next
    case False
    then show ?thesis by (subst i2c_async_send_bytes_loop.simps) simp
  qed
qed

lemma produce_command_in_bounds:
  "bsz \<le> back_capacity q \<Longrightarrow> i2c_produce_command bsz c d q \<noteq> Inl Out_of_bounds"
  by (auto simp: i2c_produce_command_def int_room1 write_command_def Let_def back_capacity_def
      split: if_splits sum.splits)

lemma send_bytes_in_bounds:
  assumes "bsz \<le> back_capacity q"
  shows "i2c_async_send_bytes bsz bytes n q \<noteq> Inl Out_of_bounds"
proof (cases "0 < n \<and> back_length q + unat n \<le> bsz")
  case True
  with assms have "back_length q + unat n \<le> back_capacity q" by simp
  from send_bytes_loop_ok [OF this] obtain q1 where
    "i2c_async_send_bytes_loop (back_length q) bytes n 0 q = Inr q1" by blast
  then show ?thesis
    by (simp add: i2c_async_send_bytes_def back_length_def Let_def)
next
  case False
  then show ?thesis
    by (auto simp: i2c_async_send_bytes_def int_room back_length_def)
qed

lemma producer_calls_in_bounds:
  "bsz \<le> back_capacity q \<Longrightarrow> producer_calls bsz calls q \<noteq> Inl Out_of_bounds"
proof (induction bsz calls q rule: producer_calls.induct)
  case (1 bsz q)
  then show ?case by simp
next
  case (2 bsz d cs q)
  show ?case
  proof (cases "i2c_async_send_byte bsz d q")
    case (Inl e)
    with produce_command_in_bounds [OF "2.prems", of I2C_COMMAND_SEND_DATA d] show ?thesis
      by (simp add: i2c_async_send_byte_def)
  next
    case (Inr q1)
    then have "back_capacity q1 = back_capacity q"
      using produce_command_length [of bsz I2C_COMMAND_SEND_DATA d q q1]
      by (simp add: i2c_async_send_byte_def)
    with "2.IH" [OF Inr] "2.prems" Inr show ?thesis by simp
  qed
next
  case (3 bsz bytes n cs q)
  show ?case
  proof (cases "i2c_async_send_bytes bsz bytes n q")
    case (Inl e)
    with send_bytes_in_bounds [OF "3.prems", of bytes n] show ?thesis by simp
  next
    case (Inr q1)
    then have "back_capacity q1 = back_capacity q"
      using send_bytes_length [of bsz bytes n q q1] by simp
    with "3.IH" [OF Inr] "3.prems" Inr show ?thesis by simp
  qed
qed

text \<open>
  C8. Whatever sequence of \<^verbatim>\<open>i2c_async_send_byte\<close> and \<^verbatim>\<open>i2c_async_send_bytes\<close> calls a
  producer makes, the back buffer's length stays within \<^verbatim>\<open>I2C_BUFFER_SIZE\<close> after every
  call that returns, no call writes outside the array of \<^verbatim>\<open>I2C_BUFFER_SIZE\<close> commands, and
  a call that would exceed the capacity fails its precondition assertion.
\<close>

theorem back_buffer_capacity:
  assumes "back_length q \<le> bsz"
  shows "(\<forall>q'. producer_calls bsz calls q = Inr q' \<longrightarrow> back_length q' \<le> bsz)
       \<and> (bsz \<le> back_capacity q \<longrightarrow> producer_calls bsz calls q \<noteq> Inl Out_of_bounds)
       \<and> (bsz < back_length q + 1 \<longrightarrow>
            i2c_async_send_byte bsz d q =
              Inl (Assertion_failed ''I2C_BUFFER_SIZE - I2C_QUEUE.back_buffer->length >= 1''))
       \<and> (0 < n \<and> bsz < back_length q + unat n \<longrightarrow>
            i2c_async_send_bytes bsz bytes n q =
              Inl (Assertion_failed ''I2C_BUFFER_SIZE - I2C_QUEUE.back_buffer->length >= n''))"
  using assms producer_calls_length [of bsz calls q] producer_calls_in_bounds [of bsz q calls]
    send_byte_full [of bsz q d] send_bytes_full [of n bsz q bytes]
  by blast

lemma example_idle_back: "back_length example_idle = 0" "back_capacity example_idle = 4"
  by (simp_all add: example_defs back_length_def back_capacity_def)

theorem back_buffer_capacity_witness:
  "back_length example_idle \<le> 4
   \<and> (\<exists>q'. producer_calls 4 [Send_byte 1, Send_bytes (\<lambda>i. 7) 2] example_idle = Inr q'
          \<and> back_length q' \<le> 4)
   \<and> producer_calls 4 [Send_byte 1, Send_bytes (\<lambda>i. 7) 2] example_idle \<noteq> Inl Out_of_bounds
   \<and> i2c_async_send_byte 0 5 example_idle =
        Inl (Assertion_failed ''I2C_BUFFER_SIZE - I2C_QUEUE.back_buffer->length >= 1'')
   \<and> i2c_async_send_bytes 4 (\<lambda>i. 7) 5 example_idle =
        Inl (Assertion_failed ''I2C_BUFFER_SIZE - I2C_QUEUE.back_buffer->length >= n'')"
proof -
  have ok: "\<exists>q'. producer_calls 4 [Send_byte 1, Send_bytes (\<lambda>i. 7) 2] example_idle = Inr q'"
    by (simp add: example_defs i2c_async_send_byte_def i2c_produce_command_def write_command_def
        i2c_async_send_bytes_def i2c_async_send_bytes_loop.simps I2C_COMMAND_defs)
  have le: "back_length example_idle \<le> 4" by (simp add: example_idle_back)
  from back_buffer_capacity [OF le, of "[Send_byte 1, Send_bytes (\<lambda>i. 7) 2]" 5 5 "\<lambda>i. 7"]
    back_buffer_capacity [of example_idle 0 "[]" 5 5 "\<lambda>i. 7"] ok
  show ?thesis by (auto simp: example_idle_back)
qed

subsection \<open>Task queue, task count and callback history\<close>

lemma fifo_replay_append:
  "fifo_replay ts cs = Some ts1 \<Longrightarrow> fifo_replay ts1 ds = Some ts2 \<Longrightarrow> fifo_replay ts (cs @ ds) = Some ts2"
  by (induction ts cs rule: fifo_replay.induct) (auto split: if_splits)

lemma fifo_replay_extend:
  "fifo_replay ts cs = Some ts1 \<Longrightarrow> fifo_replay (ts @ es) cs = Some (ts1 @ es)"
  by (induction ts cs rule: fifo_replay.induct) (auto split: if_splits)

lemma fifo_replay_length:
  "fifo_replay ts cs = Some ts1 \<Longrightarrow> length ts1 + completions cs = length ts"
  by (induction ts cs rule: fifo_replay.induct) (auto simp: completions_def split: if_splits)

lemma completions_append [simp]: "completions (cs @ ds) = completions cs + completions ds"
  by (simp add: completions_def)

lemma effect_same: "same_queue q q' \<Longrightarrow> engine_effect q q'"
  by (simp add: same_queue_def engine_effect_def completions_def)

lemma effect_trans:
  assumes "engine_effect q q1" and "engine_effect q1 q2"
  shows "engine_effect q q2"
proof -
  from assms(1) obtain cs where cs: "cb_calls q1 = cb_calls q @ cs"
    "fifo_replay (elements (tasks q)) cs = Some (elements (tasks q1))"
    "tasks_n q1 + of_nat (completions cs) = tasks_n q"
    "elements_max (tasks q1) = elements_max (tasks q)"
    unfolding engine_effect_def by blast
  from assms(2) obtain ds where ds: "cb_calls q2 = cb_calls q1 @ ds"
    "fifo_replay (elements (tasks q1)) ds = Some (elements (tasks q2))"
    "tasks_n q2 + of_nat (completions ds) = tasks_n q1"
    "elements_max (tasks q2) = elements_max (tasks q1)"
    unfolding engine_effect_def by blast
  have 1: "cb_calls q2 = cb_calls q @ (cs @ ds)" using cs(1) ds(1) by simp
  have 2: "fifo_replay (elements (tasks q)) (cs @ ds) = Some (elements (tasks q2))"
    using fifo_replay_append [OF cs(2) ds(2)] .
  have "tasks_n q2 + of_nat (completions (cs @ ds))
      = (tasks_n q2 + of_nat (completions ds)) + of_nat (completions cs)"
    by (simp add: ac_simps)
  then have 3: "tasks_n q2 + of_nat (completions (cs @ ds)) = tasks_n q"
    using cs(3) ds(3) by (simp only:)
  have 4: "elements_max (tasks q2) = elements_max (tasks q)" using cs(4) ds(4) by simp
  show ?thesis unfolding engine_effect_def using 1 2 3 4 by blast
qed


lemma same_effect: "same_queue q q1 \<Longrightarrow> engine_effect q1 q2 \<Longrightarrow> engine_effect q q2"
  by (blast intro: effect_same effect_trans)

lemma effect_then_same: "engine_effect q q1 \<Longrightarrow> same_queue q1 q2 \<Longrightarrow> engine_effect q q2"
  by (blast intro: effect_same effect_trans)

lemma switch_buffers_same: "i2c_queue_switch_buffers q = Inr q' \<Longrightarrow> same_queue q q'"
  by (auto simp: i2c_queue_switch_buffers_def same_queue_def Let_def split: if_splits sum.splits)

lemma hw_same [simp]:
  "same_queue q (i2c_hw_send_byte_int b q)"
  "same_queue q (i2c_hw_send_start_condition_int q)"
  "same_queue q (i2c_hw_send_stop_condition q)"
  "same_queue q (i2c_hw_disable_int q)"
  by (simp_all add: same_queue_def i2c_hw_send_byte_int_def i2c_hw_send_start_condition_int_def
      i2c_hw_send_stop_condition_def i2c_hw_disable_int_def)

lemma same_queue_updates [simp]:
  "same_queue q (q'\<lparr>transmitter_active := a\<rparr>) = same_queue q q'"
  "same_queue q (q'\<lparr>front_buffer_cursor := b\<rparr>) = same_queue q q'"
  "same_queue q (q'\<lparr>current_command := c\<rparr>) = same_queue q q'"
  "same_queue q (q'\<lparr>pending_buffer_switch := d\<rparr>) = same_queue q q'"
  "same_queue q (q'\<lparr>sreg_i := e\<rparr>) = same_queue q q'"
  by (simp_all add: same_queue_def)

lemma same_queue_refl [simp]: "same_queue q q"
  by (simp add: same_queue_def)

lemma process_command_skeleton:
  assumes "i2c_queue_process_command exec (Suc n) q = Inr q'"
  shows "(\<exists>qa. same_queue q qa \<and> i2c_queue_process_command_advance exec n qa = Inr q')
   \<or> (\<exists>q1 q2. i2c_queue_switch_buffers q = Inr q1 \<and> i2c_queue_process_command exec n q1 = Inr q2
         \<and> (q' = q2 \<or> i2c_queue_fetch_commands exec n q2 = Inr q'))
   \<or> same_queue q q'"
proof -
  let ?c = "code (current_command q)"
  from assms have pre: "\<not> sreg_i q" "transmitter_active q"
    by (auto split: if_splits)
  consider (data) "?c = I2C_COMMAND_SEND_DATA"
    | (start) "?c \<noteq> I2C_COMMAND_SEND_DATA" "?c = I2C_COMMAND_START"
    | (stop) "?c \<noteq> I2C_COMMAND_SEND_DATA" "?c \<noteq> I2C_COMMAND_START" "?c = I2C_COMMAND_STOP"
    | (pending) "?c \<noteq> I2C_COMMAND_SEND_DATA" "?c \<noteq> I2C_COMMAND_START" "?c \<noteq> I2C_COMMAND_STOP"
        "?c = I2C_COMMAND_PENDING"
    | (other) "?c \<noteq> I2C_COMMAND_SEND_DATA" "?c \<noteq> I2C_COMMAND_START" "?c \<noteq> I2C_COMMAND_STOP"
        "?c \<noteq> I2C_COMMAND_PENDING"
    by blast
  then show ?thesis
  proof cases
    case data
    with assms have "i2c_queue_process_command_advance exec n
        (i2c_hw_send_byte_int (data (current_command q)) q) = Inr q'"
      by (simp split: if_splits)
    then show ?thesis using hw_same(1) by blast
  next
    case start
    with assms have "i2c_queue_process_command_advance exec n
        (i2c_hw_send_start_condition_int q) = Inr q'"
      by (simp split: if_splits)
    then show ?thesis using hw_same(2) by blast
  next
    case stop
    with assms have "i2c_queue_process_command_advance exec n
        ((i2c_hw_send_stop_condition q)\<lparr>transmitter_active := False\<rparr>) = Inr q'"
      by (simp split: if_splits)
    moreover have "same_queue q ((i2c_hw_send_stop_condition q)\<lparr>transmitter_active := False\<rparr>)"
      by simp
    ultimately show ?thesis by blast
  next
    case pending
    show ?thesis
    proof (cases "pending_buffer_switch q")
      case True
      with pending assms show ?thesis
        by (auto split: if_splits sum.splits)
    next
      case False
      with pending assms have "q' = (i2c_hw_disable_int q)\<lparr>transmitter_active := False\<rparr>"
        by (simp split: if_splits)
      then show ?thesis by simp
    qed
  next
    case other
    with assms show ?thesis by (simp split: if_splits)
  qed
qed

lemma process_command_advance_skeleton:
  assumes "i2c_queue_process_command_advance exec (Suc n) q = Inr q'"
  shows "same_queue q q'
   \<or> (\<exists>q2 q3. same_queue q q2 \<and> (q3 = q2 \<or> i2c_queue_start_transmitter exec n q2 = Inr q3)
         \<and> (q' = q3 \<or> i2c_queue_fetch_commands exec n q3 = Inr q'))"
proof -
  let ?q1 = "q\<lparr>front_buffer_cursor := front_buffer_cursor q + 1\<rparr>"
  show ?thesis
  proof (cases "front_buffer_cursor ?q1 = buf_length (deref ?q1 (front_buffer ?q1))")
    case True
    show ?thesis
    proof (cases "pending_buffer_switch q")
      case p: True
      with True assms obtain q2 where sw: "i2c_queue_switch_buffers ?q1 = Inr q2"
        by (auto simp: Let_def split: sum.splits)
      from switch_buffers_same [OF sw] have s: "same_queue q q2"
        by (simp add: same_queue_def)
      from True p sw assms show ?thesis
        using s by (auto simp: Let_def split: sum.splits if_splits)
    next
      case False
      with True assms show ?thesis by (auto simp: Let_def)
    qed
  next
    case False
    with assms show ?thesis
      by (auto simp: Let_def split: sum.splits if_splits)
  qed
qed

lemma start_transmitter_skeleton:
  "i2c_queue_start_transmitter exec (Suc n) q = Inr q' \<Longrightarrow>
     \<exists>qa. same_queue q qa \<and> i2c_queue_process_command exec n qa = Inr q'"
  by (rule exI [of _ "q\<lparr>transmitter_active := True\<rparr>"]) (simp split: if_splits)

lemma fetch_commands_skeleton:
  "i2c_queue_fetch_commands exec (Suc n) q = Inr q' \<Longrightarrow>
     i2c_queue_fetch_commands_loop exec n q = Inr q'"
  by (simp split: if_splits)

lemma switch_tasks_effect:
  assumes "i2c_queue_switch_tasks q = Inr q'"
  shows "\<exists>t. elements (tasks q) = t # elements (tasks q') \<and> tasks_n q' = tasks_n q - 1
       \<and> cb_calls q' = cb_calls q \<and> elements_max (tasks q') = elements_max (tasks q)"
  using assms
  by (cases "elements (tasks q)")
    (auto simp: i2c_queue_switch_tasks_def ring_buffer_discard_def split: if_splits)

lemma fetch_iteration_effect:
  assumes frame: "callback_frame exec"
    and first: "ring_buffer_get_first (tasks q) = Inr task"
    and call: "exec (callback task) (task_data task) (q\<lparr>sreg_i := True\<rparr>) = Inr (keep, q1)"
    and q2: "q2 = q1\<lparr>sreg_i := False,
               cb_calls := cb_calls q1 @ [(task, keep, buffer_contents (deref q1 (back_buffer q1)))]\<rparr>"
    and q3: "(if \<not> keep then i2c_queue_switch_tasks q2 else Inr q2) = Inr q3"
  shows "engine_effect q q3"
proof -
  from frame call have k: "tasks q1 = tasks q" "tasks_n q1 = tasks_n q" "cb_calls q1 = cb_calls q"
    unfolding callback_frame_def by fastforce+
  from first obtain ts where ts: "elements (tasks q) = task # ts"
    by (auto simp: ring_buffer_get_first_def split: list.splits)
  let ?c = "(task, keep, buffer_contents (deref q1 (back_buffer q1)))"
  show ?thesis
  proof (cases keep)
    case True
    with q3 have "q3 = q2" by simp
    with q2 k ts True show ?thesis
      by (auto simp: engine_effect_def completions_def intro!: exI [of _ "[?c]"])
  next
    case False
    with q3 have "i2c_queue_switch_tasks q2 = Inr q3" by simp
    from switch_tasks_effect [OF this] q2 k ts
    have "elements (tasks q3) = ts" "tasks_n q3 = tasks_n q - 1" "cb_calls q3 = cb_calls q @ [?c]"
      "elements_max (tasks q3) = elements_max (tasks q)"
      by auto
    with ts False show ?thesis
      by (auto simp: engine_effect_def completions_def intro!: exI [of _ "[?c]"])
  qed
qed

lemma fetch_commands_loop_skeleton:
  assumes "i2c_queue_fetch_commands_loop exec (Suc n) q = Inr q'" and "callback_frame exec"
  shows "q' = q
   \<or> (\<exists>q3. engine_effect q q3
         \<and> (same_queue q3 q'
            \<or> (\<exists>q4 q5. i2c_queue_switch_buffers q3 = Inr q4
                  \<and> i2c_queue_start_transmitter exec n q4 = Inr q5
                  \<and> i2c_queue_fetch_commands_loop exec n q5 = Inr q')))"
proof (cases "tasks_n q = 0")
  case True
  with assms show ?thesis by simp
next
  case False
  with assms(1) obtain task where first: "ring_buffer_get_first (tasks q) = Inr task"
    by (auto split: sum.splits)
  with False assms(1) obtain keep q1 where
    call: "exec (callback task) (task_data task) (q\<lparr>sreg_i := True\<rparr>) = Inr (keep, q1)"
    by (auto split: sum.splits if_splits)
  define q2 where "q2 = q1\<lparr>sreg_i := False,
               cb_calls := cb_calls q1 @ [(task, keep, buffer_contents (deref q1 (back_buffer q1)))]\<rparr>"
  from False first call assms(1) obtain q3 where
    q3: "(if \<not> keep then i2c_queue_switch_tasks q2 else Inr q2) = Inr q3"
    by (auto simp: q2_def Let_def split: sum.splits if_splits)
  from fetch_iteration_effect [OF assms(2) first call q2_def q3] have e: "engine_effect q q3" .
  from False first call q3 assms(1) have
    "q' = q3\<lparr>pending_buffer_switch := True\<rparr>
     \<or> (\<exists>q4 q5. i2c_queue_switch_buffers q3 = Inr q4
                  \<and> i2c_queue_start_transmitter exec n q4 = Inr q5
                  \<and> i2c_queue_fetch_commands_loop exec n q5 = Inr q')"
    by (auto simp: q2_def Let_def split: sum.splits if_splits)
  then show ?thesis using e by auto
qed

lemma engine_effects:
  assumes frame: "callback_frame exec"
  shows "(\<forall>q q'. i2c_queue_process_command exec n q = Inr q' \<longrightarrow> engine_effect q q')
       \<and> (\<forall>q q'. i2c_queue_process_command_advance exec n q = Inr q' \<longrightarrow> engine_effect q q')
       \<and> (\<forall>q q'. i2c_queue_start_transmitter exec n q = Inr q' \<longrightarrow> engine_effect q q')
       \<and> (\<forall>q q'. i2c_queue_fetch_commands exec n q = Inr q' \<longrightarrow> engine_effect q q')
       \<and> (\<forall>q q'. i2c_queue_fetch_commands_loop exec n q = Inr q' \<longrightarrow> engine_effect q q')"
proof (induction n)
  case 0
  show ?case by simp
next
  case (Suc n)
  then have IHp: "\<And>q q'. i2c_queue_process_command exec n q = Inr q' \<Longrightarrow> engine_effect q q'"
    and IHa: "\<And>q q'. i2c_queue_process_command_advance exec n q = Inr q' \<Longrightarrow> engine_effect q q'"
    and IHs: "\<And>q q'. i2c_queue_start_transmitter exec n q = Inr q' \<Longrightarrow> engine_effect q q'"
    and IHf: "\<And>q q'. i2c_queue_fetch_commands exec n q = Inr q' \<Longrightarrow> engine_effect q q'"
    and IHl: "\<And>q q'. i2c_queue_fetch_commands_loop exec n q = Inr q' \<Longrightarrow> engine_effect q q'"
    by blast+
  have p: "engine_effect q q'" if "i2c_queue_process_command exec (Suc n) q = Inr q'" for q q'
    using process_command_skeleton [OF that]
    by (metis IHp IHa IHf effect_same effect_trans switch_buffers_same)
  have a: "engine_effect q q'" if "i2c_queue_process_command_advance exec (Suc n) q = Inr q'" for q q'
    using process_command_advance_skeleton [OF that]
    by (metis IHs IHf effect_same effect_trans)
  have s: "engine_effect q q'" if "i2c_queue_start_transmitter exec (Suc n) q = Inr q'" for q q'
    using start_transmitter_skeleton [OF that]
    by (metis IHp effect_same effect_trans)
  have l: "engine_effect q q'" if "i2c_queue_fetch_commands_loop exec (Suc n) q = Inr q'" for q q'
    using fetch_commands_loop_skeleton [OF that frame]
    by (metis IHs IHl effect_same effect_trans switch_buffers_same same_queue_refl)
  have f: "engine_effect q q'" if "i2c_queue_fetch_commands exec (Suc n) q = Inr q'" for q q'
    using fetch_commands_skeleton [OF that] IHl by blast
  from p a s f l show ?case by blast
qed

lemma fifo_replay_shorter: "fifo_replay ts cs = Some ts1 \<Longrightarrow> length ts1 \<le> length ts"
  using fifo_replay_length [of ts cs ts1] by simp

lemma TWI_vect_effect:
  assumes "callback_frame exec" and "TWI_vect exec fuel twsr q = Inr q'"
  shows "engine_effect q q'"
proof -
  from assms(2) obtain q1 where p: "i2c_queue_process_command exec fuel (q\<lparr>sreg_i := False\<rparr>) = Inr q1"
    and q': "q' = q1\<lparr>sreg_i := True\<rparr>"
    by (auto simp: TWI_vect_def Let_def split: if_splits sum.splits)
  from engine_effects [OF assms(1), of fuel] p have "engine_effect (q\<lparr>sreg_i := False\<rparr>) q1"
    by blast
  moreover have "same_queue q (q\<lparr>sreg_i := False\<rparr>)" by simp
  moreover have "same_queue q1 q'" by (simp add: q')
  ultimately show ?thesis by (blast intro: same_effect effect_then_same)
qed

lemma transmit_async_effect:
  assumes frame: "callback_frame exec"
    and run: "i2c_transmit_async exec fuel addr cb cb_data q = Inr q'"
  shows "run_effect [\<lparr>callback = cb, task_data = cb_data, address = addr\<rparr>] q q'"
proof -
  let ?t = "\<lparr>callback = cb, task_data = cb_data, address = addr\<rparr>"
  let ?q2 = "q\<lparr>sreg_i := False, tasks := (tasks q)\<lparr>elements := elements (tasks q) @ [?t]\<rparr>,
                tasks_n := tasks_n q + 1\<rparr>"
  from run have room: "length (elements (tasks q)) + 1 \<le> elements_max (tasks q)"
    by (auto simp: i2c_transmit_async_def Let_def ring_buffer_can_write_n_elements_def
        split: if_splits)
  from run room obtain q3 where
    q3: "(if i2c_is_idle (q\<lparr>sreg_i := False\<rparr>) then i2c_queue_fetch_commands exec fuel ?q2 else Inr ?q2) = Inr q3"
    and q': "q' = q3\<lparr>sreg_i := sreg_i q\<rparr>"
    by (auto simp: i2c_transmit_async_def Let_def ring_buffer_can_write_n_elements_def
        ring_buffer_append_def split: if_splits sum.splits)
  have "engine_effect ?q2 q3"
  proof (cases "i2c_is_idle (q\<lparr>sreg_i := False\<rparr>)")
    case True
    with q3 engine_effects [OF frame, of fuel] show ?thesis by auto
  next
    case False
    with q3 show ?thesis by (auto intro: effect_same)
  qed
  then have "engine_effect ?q2 q'"
    by (rule effect_then_same) (simp add: q')
  then obtain cs where cs: "cb_calls q' = cb_calls ?q2 @ cs"
    "fifo_replay (elements (tasks ?q2)) cs = Some (elements (tasks q'))"
    "tasks_n q' + of_nat (completions cs) = tasks_n ?q2"
    "elements_max (tasks q') = elements_max (tasks ?q2)"
    by (auto simp: engine_effect_def)
  from fifo_replay_shorter [OF cs(2)] room cs(4)
  have "length (elements (tasks q')) \<le> elements_max (tasks q')" by simp
  with cs show ?thesis
    by (auto simp: run_effect_def)
qed

lemma engine_run_effect:
  assumes frame: "callback_frame exec"
  shows "engine_run exec fuel evs q = Inr q' \<Longrightarrow>
         length (elements (tasks q)) \<le> elements_max (tasks q) \<Longrightarrow>
         run_effect (enqueued evs) q q'"
proof (induction evs arbitrary: q)
  case Nil
  then show ?case by (simp add: run_effect_def completions_def)
next
  case (Cons ev evs)
  show ?case
  proof (cases ev)
  case (Transmit_async addr cb cb_data)
  let ?t = "\<lparr>callback = cb, task_data = cb_data, address = addr\<rparr>"
  from Cons.prems Transmit_async obtain q1 where t: "i2c_transmit_async exec fuel addr cb cb_data q = Inr q1"
    and r: "engine_run exec fuel evs q1 = Inr q'"
    by (auto split: sum.splits)
  from transmit_async_effect [OF frame t] obtain cs where cs:
    "cb_calls q1 = cb_calls q @ cs"
    "fifo_replay (elements (tasks q) @ [?t]) cs = Some (elements (tasks q1))"
    "tasks_n q1 + of_nat (completions cs) = tasks_n q + 1"
    "elements_max (tasks q1) = elements_max (tasks q)"
    "length (elements (tasks q1)) \<le> elements_max (tasks q1)"
    by (auto simp: run_effect_def)
  note cap = cs(5)
  from Cons.IH [OF r cap] obtain ds where ds:
    "cb_calls q' = cb_calls q1 @ ds"
    "fifo_replay (elements (tasks q1) @ enqueued evs) ds = Some (elements (tasks q'))"
    "tasks_n q' + of_nat (completions ds) = tasks_n q1 + of_nat (length (enqueued evs))"
    "elements_max (tasks q') = elements_max (tasks q1)"
    "length (elements (tasks q')) \<le> elements_max (tasks q')"
    by (auto simp: run_effect_def)
  have 1: "cb_calls q' = cb_calls q @ (cs @ ds)" using cs(1) ds(1) by simp
  from fifo_replay_extend [OF cs(2), of "enqueued evs"]
  have "fifo_replay (elements (tasks q) @ ?t # enqueued evs) cs
          = Some (elements (tasks q1) @ enqueued evs)" by simp
  from fifo_replay_append [OF this ds(2)]
  have 2: "fifo_replay (elements (tasks q) @ ?t # enqueued evs) (cs @ ds) = Some (elements (tasks q'))" .
  have "tasks_n q' + of_nat (completions (cs @ ds))
        = (tasks_n q' + of_nat (completions ds)) + of_nat (completions cs)"
    by (simp add: ac_simps)
  also have "\<dots> = (tasks_n q1 + of_nat (completions cs)) + of_nat (length (enqueued evs))"
    by (simp only: ds(3)) (simp add: ac_simps)
  also have "\<dots> = tasks_n q + of_nat (length (?t # enqueued evs))"
    by (simp only: cs(3)) (simp add: ac_simps)
  finally have 3: "tasks_n q' + of_nat (completions (cs @ ds))
        = tasks_n q + of_nat (length (?t # enqueued evs))" .
  have 4: "elements_max (tasks q') = elements_max (tasks q)" using cs(4) ds(4) by simp
  note 5 = ds(5)
  from 1 2 3 4 5 show ?thesis
    unfolding run_effect_def Transmit_async enqueued.simps by blast
next
  case (Interrupt twsr)
  from Cons.prems Interrupt obtain q1 where t: "TWI_vect exec fuel twsr q = Inr q1"
    and r: "engine_run exec fuel evs q1 = Inr q'"
    by (auto split: sum.splits)
  from TWI_vect_effect [OF frame t] obtain cs where cs:
    "cb_calls q1 = cb_calls q @ cs"
    "fifo_replay (elements (tasks q)) cs = Some (elements (tasks q1))"
    "tasks_n q1 + of_nat (completions cs) = tasks_n q"
    "elements_max (tasks q1) = elements_max (tasks q)"
    by (auto simp: engine_effect_def)
  from fifo_replay_shorter [OF cs(2)] cs(4) Cons.prems(2)
  have cap: "length (elements (tasks q1)) \<le> elements_max (tasks q1)" by simp
  from Cons.IH [OF r cap] obtain ds where ds:
    "cb_calls q' = cb_calls q1 @ ds"
    "fifo_replay (elements (tasks q1) @ enqueued evs) ds = Some (elements (tasks q'))"
    "tasks_n q' + of_nat (completions ds) = tasks_n q1 + of_nat (length (enqueued evs))"
    "elements_max (tasks q') = elements_max (tasks q1)"
    "length (elements (tasks q')) \<le> elements_max (tasks q')"
    by (auto simp: run_effect_def)
  have 1: "cb_calls q' = cb_calls q @ (cs @ ds)" using cs(1) ds(1) by simp
  from fifo_replay_append [OF fifo_replay_extend [OF cs(2), of "enqueued evs"] ds(2)]
  have 2: "fifo_replay (elements (tasks q) @ enqueued evs) (cs @ ds) = Some (elements (tasks q'))" .
  have "tasks_n q' + of_nat (completions (cs @ ds))
        = (tasks_n q' + of_nat (completions ds)) + of_nat (completions cs)"
    by (simp add: ac_simps)
  also have "\<dots> = (tasks_n q1 + of_nat (completions cs)) + of_nat (length (enqueued evs))"
    by (simp only: ds(3)) (simp add: ac_simps)
  also have "\<dots> = tasks_n q + of_nat (length (enqueued evs))"
    by (simp only: cs(3))
  finally have 3: "tasks_n q' + of_nat (completions (cs @ ds))
        = tasks_n q + of_nat (length (enqueued evs))" .
  have 4: "elements_max (tasks q') = elements_max (tasks q)" using cs(4) ds(4) by simp
  note 5 = ds(5)
  from 1 2 3 4 5 show ?thesis
    unfolding run_effect_def Interrupt enqueued.simps by blast
qed
qed

lemma run_effect_count:
  assumes "run_effect new q q'" and "unat (tasks_n q) = length (elements (tasks q))"
    and "elements_max (tasks q) < 256"
  shows "unat (tasks_n q') = length (elements (tasks q'))"
proof -
  from assms(1) obtain cs where cs:
    "cb_calls q' = cb_calls q @ cs"
    "fifo_replay (elements (tasks q) @ new) cs = Some (elements (tasks q'))"
    "tasks_n q' + of_nat (completions cs) = tasks_n q + of_nat (length new)"
    "elements_max (tasks q') = elements_max (tasks q)"
    "length (elements (tasks q')) \<le> elements_max (tasks q')"
    by (auto simp: run_effect_def)
  from fifo_replay_length [OF cs(2)]
  have len: "length (elements (tasks q')) + completions cs = length (elements (tasks q)) + length new"
    by simp
  have "of_nat (unat (tasks_n q)) = tasks_n q" by simp
  then have "tasks_n q = of_nat (length (elements (tasks q)))"
    by (simp only: assms(2))
  with cs(3) have "tasks_n q' + of_nat (completions cs)
      = of_nat (length (elements (tasks q)) + length new)" by simp
  also have "\<dots> = of_nat (length (elements (tasks q'))) + (of_nat (completions cs) :: u8)"
    using len by (metis of_nat_add)
  finally have "tasks_n q' = of_nat (length (elements (tasks q')))" by simp
  moreover have "length (elements (tasks q')) < 256" using cs(4,5) assms(3) by simp
  ultimately show ?thesis by (simp add: unat_of_nat)
qed

lemma produce_command_same: "i2c_produce_command bsz c d q = Inr q' \<Longrightarrow> same_queue q q'"
  by (auto simp: i2c_produce_command_def write_command_def same_queue_def Let_def
      split: if_splits sum.splits)

lemma same_queue_trans: "same_queue q q1 \<Longrightarrow> same_queue q1 q2 \<Longrightarrow> same_queue q q2"
  by (simp add: same_queue_def)

lemma send_start_same: "i2c_async_send_start bsz q = Inr q' \<Longrightarrow> same_queue q q'"
  by (auto simp: i2c_async_send_start_def split: if_splits sum.splits
      dest!: produce_command_same intro: same_queue_trans)

lemma example_stream_cb_frame: "callback_frame (\<lambda>f d. example_stream_cb bsz)"
proof -
  have "same_queue q q'" if "example_stream_cb bsz q = Inr (keep, q')" for q q' :: "('a, 'b, 'c) machine" and keep
  proof -
    from that obtain q1 q2 where "i2c_async_send_start bsz q = Inr q1"
      "i2c_async_send_byte bsz 0x01 q1 = Inr q2" "i2c_async_end_transmission bsz q2 = Inr q'"
      by (auto simp: example_stream_cb_def split: sum.splits)
    then have "same_queue q q1" "same_queue q1 q2" "same_queue q2 q'"
      by (auto simp: i2c_async_send_byte_def i2c_async_end_transmission_def
          intro: send_start_same produce_command_same)
    then show ?thesis by (blast intro: same_queue_trans)
  qed
  then show ?thesis by (auto simp: callback_frame_def same_queue_def)
qed

lemma example_program_frame: "callback_frame example_program"
proof -
  have e: "example_program = (\<lambda>f d. example_stream_cb 4)"
    by (intro ext) (simp add: example_program_def)
  show ?thesis unfolding e by (rule example_stream_cb_frame)
qed

lemma example_run:
  "\<exists>q. engine_run example_program example_fuel example_events example_idle = Inr q"
  by (simp add: example_fuel_def example_events_def example_defs example_program_def
      example_stream_cb_def engine_defs)

lemma init_queue:
  "tasks_n (i2c_init queue_size q0) = 0" "elements (tasks (i2c_init queue_size q0)) = []"
  "elements_max (tasks (i2c_init queue_size q0)) = queue_size"
  "cb_calls (i2c_init queue_size q0) = cb_calls q0"
  by (simp_all add: i2c_init_def Let_def i2c_hw_init_def ring_buffer_init_def)

text \<open>
  C9. \<^verbatim>\<open>tasks_n\<close> equals the number of tasks stored in the ring buffer: both are 0 after
  \<^verbatim>\<open>i2c_init\<close>, and in every state a run of the engine reaches (any sequence of
  \<^verbatim>\<open>i2c_transmit_async\<close> calls and interrupts that does not fault) the two agree. The
  count is a \<^verbatim>\<open>uint8_t\<close>, so the queue capacity \<^verbatim>\<open>I2C_QUEUE_SIZE\<close> is below 256.
\<close>

theorem tasks_n_counts_queue:
  assumes "callback_frame exec" and "queue_size < 256"
    and "engine_run exec fuel evs (i2c_init queue_size q0) = Inr q"
  shows "tasks_n (i2c_init queue_size q0) = 0
       \<and> elements (tasks (i2c_init queue_size q0)) = []
       \<and> unat (tasks_n q) = length (elements (tasks q))"
proof -
  from engine_run_effect [OF assms(1,3)]
  have "run_effect (enqueued evs) (i2c_init queue_size q0) q" by (simp add: init_queue)
  from run_effect_count [OF this] assms(2) show ?thesis by (simp add: init_queue)
qed

theorem tasks_n_counts_queue_witness:
  "callback_frame example_program \<and> (2 :: nat) < 256
   \<and> (\<exists>q. engine_run example_program example_fuel example_events
              (i2c_init 2 (I2C_QUEUE_static 4 ())) = Inr q
          \<and> unat (tasks_n q) = length (elements (tasks q)))"
proof -
  from example_run obtain q where
    r: "engine_run example_program example_fuel example_events
          (i2c_init 2 (I2C_QUEUE_static 4 ())) = Inr q"
    by (auto simp: example_idle_def)
  have f: "callback_frame example_program"
    by (rule example_program_frame)
  have l: "(2 :: nat) < 256" by simp
  from tasks_n_counts_queue [OF f l r] f l r show ?thesis by blast
qed

text \<open>
  C3. In every state a run of the engine reaches, whatever the interleaving of
  \<^verbatim>\<open>i2c_transmit_async\<close> calls and interrupts, \<^verbatim>\<open>i2c_is_idle\<close> is true if and only if the task
  count is 0 and \<^verbatim>\<open>transmitter_active\<close> is false, which is also if and only if the task
  queue holds no task and no transmission is in progress.
\<close>

theorem is_idle_iff:
  assumes "callback_frame exec" and "queue_size < 256"
    and "engine_run exec fuel evs (i2c_init queue_size q0) = Inr q"
  shows "(i2c_is_idle q \<longleftrightarrow> tasks_n q = 0 \<and> \<not> transmitter_active q)
       \<and> (i2c_is_idle q \<longleftrightarrow> elements (tasks q) = [] \<and> \<not> transmitter_active q)"
proof -
  from engine_run_effect [OF assms(1,3)]
  have "run_effect (enqueued evs) (i2c_init queue_size q0) q" by (simp add: init_queue)
  from run_effect_count [OF this] assms(2)
  have "unat (tasks_n q) = length (elements (tasks q))" by (simp add: init_queue)
  then have "tasks_n q = 0 \<longleftrightarrow> elements (tasks q) = []"
    by (metis length_0_conv unat_0_iff)
  then show ?thesis by (auto simp: i2c_is_idle_def)
qed

theorem is_idle_iff_witness:
  "callback_frame example_program \<and> (2 :: nat) < 256
   \<and> (\<exists>q. engine_run example_program example_fuel example_events
              (i2c_init 2 (I2C_QUEUE_static 4 ())) = Inr q
          \<and> (i2c_is_idle q \<longleftrightarrow> tasks_n q = 0 \<and> \<not> transmitter_active q)
          \<and> (i2c_is_idle q \<longleftrightarrow> elements (tasks q) = [] \<and> \<not> transmitter_active q))"
proof -
  from example_run obtain q where
    r: "engine_run example_program example_fuel example_events
          (i2c_init 2 (I2C_QUEUE_static 4 ())) = Inr q"
    by (auto simp: example_idle_def)
  have f: "callback_frame example_program"
    by (rule example_program_frame)
  have l: "(2 :: nat) < 256" by simp
  from is_idle_iff [OF f l r] f l r show ?thesis by blast
qed

text \<open>
  The order of service. In every run of the engine from \<^verbatim>\<open>i2c_init\<close> the producer callback
  calls made so far serve the enqueued tasks in enqueue order: every call is a call of the
  task at the head of the queue, a later task is called only after the task before it
  returned \<^verbatim>\<open>false\<close>, and a task leaves the queue exactly at the call that returns \<^verbatim>\<open>false\<close>.
  This says nothing about whether a queued task is ever called.
\<close>

lemma callback_calls_fifo:
  assumes "callback_frame exec"
    and "engine_run exec fuel evs (i2c_init queue_size q0) = Inr q"
  shows "\<exists>cs. cb_calls q = cb_calls q0 @ cs
            \<and> fifo_replay (enqueued evs) cs = Some (elements (tasks q))"
proof -
  from engine_run_effect [OF assms(1,2)]
  have "run_effect (enqueued evs) (i2c_init queue_size q0) q" by (simp add: init_queue)
  then show ?thesis by (auto simp: run_effect_def init_queue)
qed

text \<open>
  C4. Tasks do not all complete. A second task enqueued while the only buffer of the first
  task is on the wire is never served: \<^verbatim>\<open>i2c_transmit_async\<close> does not fetch because the
  transmitter is active, and the handler reaches the end of the buffer with no switch
  pending, sets \<^verbatim>\<open>Pending\<close> and stops without fetching. After the stop condition the callback
  of the second task has not been called, the task is still queued, the transmitter is
  inactive and no interrupt is outstanding, so no handler will run; \<^verbatim>\<open>i2c_is_idle\<close> stays
  false and \<^verbatim>\<open>i2c_wait\<close> spins; a further \<^verbatim>\<open>i2c_transmit_async\<close> only enqueues.
\<close>

theorem queued_task_never_served:
  "\<exists>q. engine_run example_program example_fuel example_events3 example_idle = Inr q
      \<and> map (address \<circ> fst) (cb_calls q) = [0xA0]
      \<and> map address (elements (tasks q)) = [0x50]
      \<and> tasks_n q = 1
      \<and> hw_calls q =
           [Hw_init, Hw_send_start_condition, Hw_send_byte 0xA0, Hw_send_byte 0x01,
            Hw_send_stop_condition]
      \<and> \<not> transmitter_active q \<and> \<not> pending_buffer_switch q
      \<and> code (current_command q) = I2C_COMMAND_PENDING
      \<and> \<not> twi_interrupt_pending q
      \<and> \<not> i2c_is_idle q
      \<and> i2c_wait example_program example_fuel [] q = Inl Fuel_exhausted
      \<and> (\<exists>q'. i2c_transmit_async example_program example_fuel 0x60 () () q = Inr q'
             \<and> cb_calls q' = cb_calls q \<and> hw_calls q' = hw_calls q
             \<and> map address (elements (tasks q')) = [0x50, 0x60])"
  by (simp add: example_fuel_def example_events3_def example_defs example_program_def
      example_stream_cb_def engine_defs take_step twi_interrupt_pending_def)


subsection \<open>A transmission from the parked engine\<close>

lemma i2c_wait_idle: "i2c_is_idle q \<Longrightarrow> i2c_wait exec fuel irqs q = Inr q"
  by (cases irqs) simp_all

lemma parked_cases:
  assumes "engine_parked bsz q"
  obtains (AB) "front_buffer q = Buffer_A" "back_buffer q = Buffer_B"
    | (BA) "front_buffer q = Buffer_B" "back_buffer q = Buffer_A"
  using assms by (cases "front_buffer q"; cases "back_buffer q") (auto simp: engine_parked_def)

lemma fuel_5: "5 \<le> fuel \<Longrightarrow> \<exists>m. fuel = Suc (Suc (Suc (Suc (Suc m))))"
  by (rule exI [of _ "fuel - 5"]) simp

lemma four_command_stream_run:
  assumes parked: "engine_parked bsz q" and bsz: "4 \<le> bsz"
    and cb: "exec cb cb_data = example_stream_cb bsz"
  shows "\<exists>q1 q2. i2c_transmit_async exec (Suc (Suc (Suc (Suc (Suc m))))) 0xA0 cb cb_data q = Inr q1
     \<and> i2c_wait exec (Suc (Suc (Suc (Suc (Suc m)))))
           (TW_START # TW_MT_SLA_ACK # TW_MT_DATA_ACK # irqs) q1 = Inr q2
     \<and> cb_calls q2 = cb_calls q @
          [(\<lparr>callback = cb, task_data = cb_data, address = 0xA0\<rparr>, False,
            [\<lparr>code = I2C_COMMAND_START, data = 0\<rparr>, \<lparr>code = I2C_COMMAND_SEND_DATA, data = 0xA0\<rparr>,
             \<lparr>code = I2C_COMMAND_SEND_DATA, data = 0x01\<rparr>, \<lparr>code = I2C_COMMAND_STOP, data = 0\<rparr>])]
     \<and> hw_calls q2 = hw_calls q @
          [Hw_send_start_condition, Hw_send_byte 0xA0, Hw_send_byte 0x01, Hw_send_stop_condition]
     \<and> i2c_is_idle q2"
proof -
  from parked bsz have ne: "commands (buffer_a q) \<noteq> []" "commands (buffer_b q) \<noteq> []"
    by (auto simp: engine_parked_def)
  from parked show ?thesis
  proof (cases rule: parked_cases)
    case AB
    with parked bsz cb ne show ?thesis
      by (simp add: engine_parked_def deref_def store_def example_stream_cb_def engine_defs Let_def
          TW_START_def TW_MT_SLA_ACK_def i2c_wait_idle take_step)
  next
    case BA
    with parked bsz cb ne show ?thesis
      by (simp add: engine_parked_def deref_def store_def example_stream_cb_def engine_defs Let_def
          TW_START_def TW_MT_SLA_ACK_def i2c_wait_idle take_step)
  qed
qed

text \<open>
  C1. One task enqueued with \<^verbatim>\<open>i2c_transmit_async\<close> while the engine is at rest and nothing
  is queued, whose callback emits \<^verbatim>\<open>Start\<close>, \<^verbatim>\<open>SendData(0xA0)\<close>, \<^verbatim>\<open>SendData(0x01)\<close>, \<^verbatim>\<open>Stop\<close>
  and reports completion: with the three interrupts that the start condition and the two
  bytes raise, the engine makes exactly the four bus calls send-start-condition,
  send-byte(0xA0), send-byte(0x01), send-stop-condition, in this order, the callback is
  called once, and \<^verbatim>\<open>i2c_is_idle\<close> is true afterwards. Any call budget of 5 or more is
  enough.
\<close>

theorem four_command_stream:
  assumes "engine_parked bsz q" and "4 \<le> bsz"
    and "exec cb cb_data = example_stream_cb bsz" and "5 \<le> fuel"
  shows "\<exists>q1 q2. i2c_transmit_async exec fuel 0xA0 cb cb_data q = Inr q1
     \<and> i2c_wait exec fuel (TW_START # TW_MT_SLA_ACK # TW_MT_DATA_ACK # irqs) q1 = Inr q2
     \<and> cb_calls q2 = cb_calls q @
          [(\<lparr>callback = cb, task_data = cb_data, address = 0xA0\<rparr>, False,
            [\<lparr>code = I2C_COMMAND_START, data = 0\<rparr>, \<lparr>code = I2C_COMMAND_SEND_DATA, data = 0xA0\<rparr>,
             \<lparr>code = I2C_COMMAND_SEND_DATA, data = 0x01\<rparr>, \<lparr>code = I2C_COMMAND_STOP, data = 0\<rparr>])]
     \<and> hw_calls q2 = hw_calls q @
          [Hw_send_start_condition, Hw_send_byte 0xA0, Hw_send_byte 0x01, Hw_send_stop_condition]
     \<and> i2c_is_idle q2"
proof -
  from fuel_5 [OF assms(4)] obtain m where m: "fuel = Suc (Suc (Suc (Suc (Suc m))))" ..
  from four_command_stream_run [where exec = exec and cb = cb and cb_data = cb_data,
      OF assms(1,2,3)]
  show ?thesis unfolding m .
qed

lemma example_idle_parked: "engine_parked 4 example_idle"
  by (simp add: engine_parked_def example_defs)

lemma example_idle_calls: "cb_calls example_idle = []" "hw_calls example_idle = [Hw_init]"
  by (simp_all add: example_defs)

theorem four_command_stream_witness:
  "engine_parked 4 example_idle \<and> (4 :: nat) \<le> 4 \<and> (5 :: nat) \<le> 5
   \<and> (\<exists>q1 q2. i2c_transmit_async example_program 5 0xA0 () () example_idle = Inr q1
          \<and> i2c_wait example_program 5 [TW_START, TW_MT_SLA_ACK, TW_MT_DATA_ACK] q1
                = Inr q2
          \<and> hw_calls q2 =
               [Hw_init, Hw_send_start_condition, Hw_send_byte 0xA0, Hw_send_byte 0x01,
                Hw_send_stop_condition]
          \<and> i2c_is_idle q2)"
proof -
  have b: "(4 :: nat) \<le> 4" and f: "(5 :: nat) \<le> 5" by simp_all
  have c: "example_program () () = example_stream_cb 4" by (simp add: example_program_def)
  from four_command_stream [where exec = example_program and cb = "()"
      and cb_data = "()" and irqs = "[]", OF example_idle_parked b c f]
  show ?thesis using example_idle_parked by (auto simp: example_idle_calls)
qed

subsection \<open>Transfers from program storage\<close>

lemma upt_last_step: "m < n \<Longrightarrow> [m..<n] = [m..<n - 1] @ [n - 1]"
  by (cases n) simp_all

lemmas progmem_defs =
  i2c_transmit_progmem_def i2c_transmit_progmem_cb_def i2c_transmit_progmem_cb_loop.simps

lemma zero_length_run:
  assumes parked: "engine_parked bsz q" and bsz: "3 \<le> bsz"
    and cb: "exec cb = i2c_transmit_progmem_cb bsz"
    and even: "addr AND 1 = 0"
  shows "\<exists>q2. i2c_transmit_progmem exec (Suc (Suc (Suc (Suc (Suc m)))))
             (TW_START # TW_MT_SLA_ACK # irqs) cb ctrl addr bytes 0 q = Inr q2
     \<and> cb_calls q2 = cb_calls q @
          [(\<lparr>callback = cb, task_data = ctrl, address = addr\<rparr>, False,
            [\<lparr>code = I2C_COMMAND_START, data = 0\<rparr>, \<lparr>code = I2C_COMMAND_SEND_DATA, data = addr\<rparr>,
             \<lparr>code = I2C_COMMAND_STOP, data = 0\<rparr>])]
     \<and> hw_calls q2 = hw_calls q @
          [Hw_send_start_condition, Hw_send_byte addr, Hw_send_stop_condition]
     \<and> i2c_is_idle q2"
proof -
  from parked bsz have ne: "commands (buffer_a q) \<noteq> []" "commands (buffer_b q) \<noteq> []"
    by (auto simp: engine_parked_def)
  from parked show ?thesis
  proof (cases rule: parked_cases)
    case AB
    with parked bsz cb ne even show ?thesis
      by (simp add: engine_parked_def deref_def store_def progmem_defs engine_defs Let_def
          TW_START_def TW_MT_SLA_ACK_def i2c_wait_idle take_step)
  next
    case BA
    with parked bsz cb ne even show ?thesis
      by (simp add: engine_parked_def deref_def store_def progmem_defs engine_defs Let_def
          TW_START_def TW_MT_SLA_ACK_def i2c_wait_idle take_step)
  qed
qed

text \<open>
  C10. \<^verbatim>\<open>i2c_transmit_progmem\<close> with length 0 from the parked engine: the producer callback is
  called exactly once, appends \<^verbatim>\<open>Start\<close>, the address byte and \<^verbatim>\<open>Stop\<close> and returns
  \<^verbatim>\<open>false\<close>; start condition, address byte and stop condition go out on the wire and the
  engine is idle afterwards.
\<close>

theorem zero_length_progmem:
  assumes "engine_parked bsz q" and "3 \<le> bsz"
    and "exec cb = i2c_transmit_progmem_cb bsz" and "addr AND 1 = 0" and "5 \<le> fuel"
  shows "\<exists>q2. i2c_transmit_progmem exec fuel (TW_START # TW_MT_SLA_ACK # irqs)
             cb ctrl addr bytes 0 q = Inr q2
     \<and> cb_calls q2 = cb_calls q @
          [(\<lparr>callback = cb, task_data = ctrl, address = addr\<rparr>, False,
            [\<lparr>code = I2C_COMMAND_START, data = 0\<rparr>, \<lparr>code = I2C_COMMAND_SEND_DATA, data = addr\<rparr>,
             \<lparr>code = I2C_COMMAND_STOP, data = 0\<rparr>])]
     \<and> hw_calls q2 = hw_calls q @
          [Hw_send_start_condition, Hw_send_byte addr, Hw_send_stop_condition]
     \<and> i2c_is_idle q2"
proof -
  from fuel_5 [OF assms(5)] obtain m where m: "fuel = Suc (Suc (Suc (Suc (Suc m))))" ..
  from zero_length_run [where exec = exec and cb = cb, OF assms(1,2,3,4)]
  show ?thesis unfolding m .
qed

lemma replicate_step: "0 < n \<Longrightarrow> replicate n x = x # replicate (n - 1) x"
  by (cases n) simp_all

lemma progmem_40_AB:
  assumes parked: "engine_parked bsz q" and bsz: "18 \<le> bsz"
    and cb: "exec cb = i2c_transmit_progmem_cb bsz"
    and even: "addr AND 1 = 0"
    and AB: "front_buffer q = Buffer_A" "back_buffer q = Buffer_B"
  shows "\<exists>q2. i2c_transmit_progmem exec (Suc (Suc (Suc (Suc (Suc (Suc (Suc (Suc m))))))))
             (TW_START # TW_MT_SLA_ACK # replicate 40 TW_MT_DATA_ACK @ irqs) cb ctrl addr bytes 40 q = Inr q2
     \<and> cb_calls q2 = cb_calls q @
          [(\<lparr>callback = cb, task_data = ctrl, address = addr\<rparr>, True,
            \<lparr>code = I2C_COMMAND_START, data = 0\<rparr> # SendData addr # map (\<lambda>i. SendData (bytes i)) [0..<16]),
           (\<lparr>callback = cb, task_data = ctrl, address = addr\<rparr>, True,
            map (\<lambda>i. SendData (bytes i)) [16..<32]),
           (\<lparr>callback = cb, task_data = ctrl, address = addr\<rparr>, True,
            map (\<lambda>i. SendData (bytes i)) [32..<40]),
           (\<lparr>callback = cb, task_data = ctrl, address = addr\<rparr>, False,
            [\<lparr>code = I2C_COMMAND_STOP, data = 0\<rparr>])]
     \<and> hw_calls q2 = hw_calls q @
          Hw_send_start_condition # Hw_send_byte addr # map (\<lambda>i. Hw_send_byte (bytes i)) [0..<40]
          @ [Hw_send_stop_condition]
     \<and> i2c_is_idle q2"
proof -
  from parked bsz have ne: "commands (buffer_a q) \<noteq> []" "commands (buffer_b q) \<noteq> []"
    by (auto simp: engine_parked_def)
  from parked bsz cb ne even AB show ?thesis
      by (simp add: engine_parked_def deref_def store_def progmem_defs engine_defs Let_def
          TW_START_def TW_MT_SLA_ACK_def i2c_wait_idle take_step upt_last_step SendData_def
          replicate_step)
qed
lemma progmem_40_BA:
  assumes parked: "engine_parked bsz q" and bsz: "18 \<le> bsz"
    and cb: "exec cb = i2c_transmit_progmem_cb bsz"
    and even: "addr AND 1 = 0"
    and BA: "front_buffer q = Buffer_B" "back_buffer q = Buffer_A"
  shows "\<exists>q2. i2c_transmit_progmem exec (Suc (Suc (Suc (Suc (Suc (Suc (Suc (Suc m))))))))
             (TW_START # TW_MT_SLA_ACK # replicate 40 TW_MT_DATA_ACK @ irqs) cb ctrl addr bytes 40 q = Inr q2
     \<and> cb_calls q2 = cb_calls q @
          [(\<lparr>callback = cb, task_data = ctrl, address = addr\<rparr>, True,
            \<lparr>code = I2C_COMMAND_START, data = 0\<rparr> # SendData addr # map (\<lambda>i. SendData (bytes i)) [0..<16]),
           (\<lparr>callback = cb, task_data = ctrl, address = addr\<rparr>, True,
            map (\<lambda>i. SendData (bytes i)) [16..<32]),
           (\<lparr>callback = cb, task_data = ctrl, address = addr\<rparr>, True,
            map (\<lambda>i. SendData (bytes i)) [32..<40]),
           (\<lparr>callback = cb, task_data = ctrl, address = addr\<rparr>, False,
            [\<lparr>code = I2C_COMMAND_STOP, data = 0\<rparr>])]
     \<and> hw_calls q2 = hw_calls q @
          Hw_send_start_condition # Hw_send_byte addr # map (\<lambda>i. Hw_send_byte (bytes i)) [0..<40]
          @ [Hw_send_stop_condition]
     \<and> i2c_is_idle q2"
proof -
  from parked bsz have ne: "commands (buffer_a q) \<noteq> []" "commands (buffer_b q) \<noteq> []"
    by (auto simp: engine_parked_def)
  from parked bsz cb ne even BA show ?thesis
      by (simp add: engine_parked_def deref_def store_def progmem_defs engine_defs Let_def
          TW_START_def TW_MT_SLA_ACK_def i2c_wait_idle take_step upt_last_step SendData_def
          replicate_step)
qed

lemma fuel_8: "8 \<le> fuel \<Longrightarrow> \<exists>m. fuel = Suc (Suc (Suc (Suc (Suc (Suc (Suc (Suc m)))))))"
  by (rule exI [of _ "fuel - 8"]) simp

lemma progmem_40_run:
  assumes parked: "engine_parked bsz q" and bsz: "18 \<le> bsz"
    and cb: "exec cb = i2c_transmit_progmem_cb bsz"
    and even: "addr AND 1 = 0"
    and fuel: "8 \<le> fuel"
  shows "\<exists>q2. i2c_transmit_progmem exec fuel
             (TW_START # TW_MT_SLA_ACK # replicate 40 TW_MT_DATA_ACK @ irqs) cb ctrl addr bytes 40 q = Inr q2
     \<and> cb_calls q2 = cb_calls q @
          [(\<lparr>callback = cb, task_data = ctrl, address = addr\<rparr>, True,
            \<lparr>code = I2C_COMMAND_START, data = 0\<rparr> # SendData addr # map (\<lambda>i. SendData (bytes i)) [0..<16]),
           (\<lparr>callback = cb, task_data = ctrl, address = addr\<rparr>, True,
            map (\<lambda>i. SendData (bytes i)) [16..<32]),
           (\<lparr>callback = cb, task_data = ctrl, address = addr\<rparr>, True,
            map (\<lambda>i. SendData (bytes i)) [32..<40]),
           (\<lparr>callback = cb, task_data = ctrl, address = addr\<rparr>, False,
            [\<lparr>code = I2C_COMMAND_STOP, data = 0\<rparr>])]
     \<and> hw_calls q2 = hw_calls q @
          Hw_send_start_condition # Hw_send_byte addr # map (\<lambda>i. Hw_send_byte (bytes i)) [0..<40]
          @ [Hw_send_stop_condition]
     \<and> i2c_is_idle q2"
proof -
  from fuel_8 [OF fuel] obtain m where m: "fuel = Suc (Suc (Suc (Suc (Suc (Suc (Suc (Suc m)))))))" ..
  from parked show ?thesis
  proof (cases rule: parked_cases)
    case AB
    from progmem_40_AB [where exec = exec and cb = cb, OF parked bsz cb even AB]
    show ?thesis unfolding m .
  next
    case BA
    from progmem_40_BA [where exec = exec and cb = cb, OF parked bsz cb even BA]
    show ?thesis unfolding m .
  qed
qed

lemma example_progmem_idle_parked: "engine_parked 18 example_progmem_idle"
  by (simp add: engine_parked_def example_progmem_idle_def example_defs)

lemma example_progmem_idle_calls:
  "cb_calls example_progmem_idle = []" "hw_calls example_progmem_idle = [Hw_init]"
  by (simp_all add: example_progmem_idle_def example_defs)


theorem zero_length_progmem_witness:
  "engine_parked 18 example_progmem_idle \<and> (3 :: nat) \<le> 18 \<and> (0x78 :: u8) AND 1 = 0
   \<and> (5 :: nat) \<le> 5
   \<and> (\<exists>q2. i2c_transmit_progmem example_progmem_program 5 [TW_START, TW_MT_SLA_ACK]
              () () 0x78 of_nat 0 example_progmem_idle = Inr q2
          \<and> map (fst \<circ> snd) (cb_calls q2) = [False]
          \<and> hw_calls q2 =
               [Hw_init, Hw_send_start_condition, Hw_send_byte 0x78, Hw_send_stop_condition]
          \<and> i2c_is_idle q2)"
proof -
  have b: "(3 :: nat) \<le> 18" and f: "(5 :: nat) \<le> 5" and e: "(0x78 :: u8) AND 1 = 0"
    by simp_all
  have c: "example_progmem_program () = i2c_transmit_progmem_cb 18"
    by (simp add: example_progmem_program_def)
  from zero_length_progmem [where exec = example_progmem_program and cb = "()"
      and irqs = "[]" and ctrl = "()" and bytes = of_nat, OF example_progmem_idle_parked b c e f]
  show ?thesis using example_progmem_idle_parked
    by (auto simp: example_progmem_idle_calls)
qed

text \<open>
  C7, as the claim states it: a 40-byte transfer would take exactly three callback calls.
  It takes four: the third call, which produces the last 8 bytes, still returns \<^verbatim>\<open>true\<close>, and
  a fourth call produces the \<^verbatim>\<open>Stop\<close> command and returns \<^verbatim>\<open>false\<close>.
\<close>

theorem progmem_40_four_invocations:
  "map_sum id (map (fst \<circ> snd) \<circ> cb_calls)
     (i2c_transmit_progmem example_progmem_program 8
        (TW_START # TW_MT_SLA_ACK # replicate 40 TW_MT_DATA_ACK) () () 0x78 of_nat 40
        example_progmem_idle)
   = Inr [True, True, True, False]"
proof -
  have e: "(0x78 :: u8) AND 1 = 0" by simp
  have c: "example_progmem_program () = i2c_transmit_progmem_cb 18"
    by (simp add: example_progmem_program_def)
  have b: "(18 :: nat) \<le> 18" and f: "(8 :: nat) \<le> 8" by simp_all
  from progmem_40_run [where exec = example_progmem_program and cb = "()" and irqs = "[]"
      and ctrl = "()" and bytes = of_nat, OF example_progmem_idle_parked b c e f]
  show ?thesis by (auto simp: example_progmem_idle_calls)
qed


subsection \<open>A transfer of 40 bytes under every schedule of interrupts\<close>

text \<open>
  The run above has no interrupt while a callback runs. In general handlers pre-empt the
  callbacks, drain the front buffer and disable the interrupt, and the fetch loop restarts
  the transmitter. The lemmas of this part follow the transfer through every such
  schedule.
\<close>

lemma transfer_chunk_length:
  "length (transfer_chunk addr bytes i) = (if i = 0 then 18 else if i = 1 then 16 else if i = 2 then 8 else 1)"
  by (simp add: transfer_chunk_def)

lemma transfer_chunk_code:
  "c < length (transfer_chunk addr bytes i) \<Longrightarrow>
     code (transfer_chunk addr bytes i ! c) =
       (if i = 0 \<and> c = 0 then I2C_COMMAND_START
        else if 3 \<le> i then I2C_COMMAND_STOP else I2C_COMMAND_SEND_DATA)"
  by (cases c; cases "c - 1") (auto simp: transfer_chunk_def SendData_def nth_Cons')

lemma u8_succ:
  fixes x y :: u8
  assumes "unat x < unat y"
  shows "unat (x + 1) = unat x + 1" and "(x + 1 = y) = (unat x + 1 = unat y)"
proof -
  have "unat y < 256" using unsigned_less [of y, where ?'a = nat] by simp
  with assms show a: "unat (x + 1) = unat x + 1" by (simp add: unat_word_ariths)
  show "(x + 1 = y) = (unat x + 1 = unat y)"
  proof
    assume "x + 1 = y" with a show "unat x + 1 = unat y" by simp
  next
    assume "unat x + 1 = unat y"
    with a have "unat (x + 1) = unat y" by simp
    then show "x + 1 = y" by (simp add: word_unat_eq_iff)
  qed
qed

lemma pending_snoc [simp]:
  "twi_interrupt_pending (q\<lparr>hw_calls := h @ [c]\<rparr>) =
     (case c of Hw_send_start_condition \<Rightarrow> True | Hw_send_byte b \<Rightarrow> True | _ \<Rightarrow> False)"
  by (simp add: twi_interrupt_pending_def)

lemma pending_updates [simp]:
  "twi_interrupt_pending (q\<lparr>sreg_i := s\<rparr>) = twi_interrupt_pending q"
  "twi_interrupt_pending (q\<lparr>transmitter_active := a\<rparr>) = twi_interrupt_pending q"
  "twi_interrupt_pending (q\<lparr>front_buffer_cursor := c\<rparr>) = twi_interrupt_pending q"
  "twi_interrupt_pending (q\<lparr>current_command := cc\<rparr>) = twi_interrupt_pending q"
  "twi_interrupt_pending (q\<lparr>pending_buffer_switch := p\<rparr>) = twi_interrupt_pending q"
  "twi_interrupt_pending (q\<lparr>cb_calls := cs\<rparr>) = twi_interrupt_pending q"
  "twi_interrupt_pending (q\<lparr>tasks := ts\<rparr>) = twi_interrupt_pending q"
  "twi_interrupt_pending (q\<lparr>tasks_n := n\<rparr>) = twi_interrupt_pending q"
  "twi_interrupt_pending (q\<lparr>mem := m\<rparr>) = twi_interrupt_pending q"
  "twi_interrupt_pending (q\<lparr>buffer_a := b\<rparr>) = twi_interrupt_pending q"
  "twi_interrupt_pending (q\<lparr>buffer_b := b\<rparr>) = twi_interrupt_pending q"
  "twi_interrupt_pending (q\<lparr>front_buffer := p1\<rparr>) = twi_interrupt_pending q"
  "twi_interrupt_pending (q\<lparr>back_buffer := p1\<rparr>) = twi_interrupt_pending q"
  by (simp_all add: twi_interrupt_pending_def)

lemma bus_calls_snoc [simp]:
  "bus_calls (cs @ [c]) = (if c = Hw_disable_int then bus_calls cs else bus_calls cs @ [c])"
  by (simp add: bus_calls_def)

subsubsection \<open>Single steps of the state machine\<close>

lemma process_command_issue:
  assumes sreg: "\<not> sreg_i q" and act: "transmitter_active q"
    and lt: "unat (front_buffer_cursor q) < unat (buf_length (deref q (front_buffer q)))"
    and code: "code (current_command q) = I2C_COMMAND_START
               \<or> code (current_command q) = I2C_COMMAND_SEND_DATA
               \<or> code (current_command q) = I2C_COMMAND_STOP"
    and last: "unat (front_buffer_cursor q) + 1 = unat (buf_length (deref q (front_buffer q)))
                 \<longrightarrow> \<not> pending_buffer_switch q"
    and mid: "unat (front_buffer_cursor q) + 1 \<noteq> unat (buf_length (deref q (front_buffer q)))
                 \<longrightarrow> code (current_command q) \<noteq> I2C_COMMAND_STOP
                   \<and> unat (front_buffer_cursor q) + 1 < length (commands (deref q (front_buffer q)))"
  shows "\<exists>q'. i2c_queue_process_command exec (Suc (Suc n)) q = Inr q'
           \<and> hw_calls q' = hw_calls q @ [wire (current_command q)]
           \<and> unat (front_buffer_cursor q') = unat (front_buffer_cursor q) + 1
           \<and> current_command q' =
               (if unat (front_buffer_cursor q) + 1 = unat (buf_length (deref q (front_buffer q)))
                then (current_command q)\<lparr>code := I2C_COMMAND_PENDING\<rparr>
                else commands (deref q (front_buffer q)) ! (unat (front_buffer_cursor q) + 1))
           \<and> transmitter_active q' = (code (current_command q) \<noteq> I2C_COMMAND_STOP)
           \<and> consumer_frame q q' \<and> sreg_i q' = sreg_i q"
proof -
  let ?fb = "deref q (front_buffer q)"
  note succ = u8_succ [OF lt]
  have pos: "0 < buf_length ?fb" using lt by (simp add: word_less_nat_alt)
  have le: "front_buffer_cursor q \<le> buf_length ?fb" using lt by (simp add: word_le_nat_alt)
  show ?thesis
  proof (cases "unat (front_buffer_cursor q) + 1 = unat (buf_length ?fb)")
    case True
    with last have np: "\<not> pending_buffer_switch q" by simp
    from True have eq: "front_buffer_cursor q + 1 = buf_length ?fb" using succ(2) by simp
    from code show ?thesis
      using sreg act np eq pos le True succ(1)
      by (elim disjE)
        (simp_all add: consumer_frame_def I2C_COMMAND_defs wire_def
          i2c_hw_send_byte_int_def i2c_hw_send_start_condition_int_def
          i2c_hw_send_stop_condition_def)
  next
    case False
    from False have neq: "front_buffer_cursor q + 1 \<noteq> buf_length ?fb" using succ(2) by simp
    from False mid have ns: "code (current_command q) \<noteq> I2C_COMMAND_STOP"
      and inb: "unat (front_buffer_cursor q) + 1 < length (commands ?fb)" by simp_all
    from code ns have code': "code (current_command q) = I2C_COMMAND_START
               \<or> code (current_command q) = I2C_COMMAND_SEND_DATA" by simp
    from code' show ?thesis
      using sreg act neq pos le False succ(1) inb
      by (elim disjE)
        (simp_all add: consumer_frame_def I2C_COMMAND_defs wire_def read_command_def
          i2c_hw_send_byte_int_def i2c_hw_send_start_condition_int_def
          i2c_hw_send_stop_condition_def)
  qed
qed

lemma process_command_disable:
  assumes sreg: "\<not> sreg_i q" and act: "transmitter_active q"
    and pos: "0 < unat (buf_length (deref q (front_buffer q)))"
    and le: "unat (front_buffer_cursor q) \<le> unat (buf_length (deref q (front_buffer q)))"
    and code: "code (current_command q) = I2C_COMMAND_PENDING"
    and np: "\<not> pending_buffer_switch q"
  shows "\<exists>q'. i2c_queue_process_command exec (Suc n) q = Inr q'
           \<and> hw_calls q' = hw_calls q @ [Hw_disable_int]
           \<and> front_buffer_cursor q' = front_buffer_cursor q
           \<and> current_command q' = current_command q
           \<and> \<not> transmitter_active q'
           \<and> consumer_frame q q' \<and> sreg_i q' = sreg_i q"
proof -
  have pos': "0 < buf_length (deref q (front_buffer q))" using pos by (simp add: word_less_nat_alt)
  have le': "front_buffer_cursor q \<le> buf_length (deref q (front_buffer q))"
    using le by (simp add: word_le_nat_alt)
  show ?thesis using sreg act pos' le' code np
    by (simp add: consumer_frame_def I2C_COMMAND_defs i2c_hw_disable_int_def)
qed

lemma switch_buffers_result:
  assumes ne: "front_buffer q \<noteq> back_buffer q"
    and pos: "0 < unat (buf_length (deref q (back_buffer q)))"
    and full: "unat (front_buffer_cursor q) = unat (buf_length (deref q (front_buffer q)))"
    and inb: "commands (deref q (back_buffer q)) \<noteq> []"
  shows "\<exists>q'. i2c_queue_switch_buffers q = Inr q'
           \<and> front_buffer q' = back_buffer q \<and> back_buffer q' = front_buffer q
           \<and> deref q' (front_buffer q') = deref q (back_buffer q)
           \<and> buf_length (deref q' (back_buffer q')) = 0
           \<and> commands (deref q' (back_buffer q')) = commands (deref q (front_buffer q))
           \<and> front_buffer_cursor q' = 0
           \<and> current_command q' = commands (deref q (back_buffer q)) ! 0
           \<and> \<not> pending_buffer_switch q'
           \<and> switch_frame q q'"
proof -
  have pos': "0 < buf_length (deref q (back_buffer q))" using pos by (simp add: word_less_nat_alt)
  have full': "front_buffer_cursor q = buf_length (deref q (front_buffer q))"
    using full by (simp add: word_unat_eq_iff)
  show ?thesis using ne pos' full' inb
    by (cases "front_buffer q"; cases "back_buffer q")
      (simp_all add: i2c_queue_switch_buffers_def Let_def read_command_def deref_def store_def
        switch_frame_def)
qed

subsubsection \<open>The consumer side of a transfer\<close>

lemma consumer_frame_deref: "consumer_frame q q' \<Longrightarrow> deref q' p = deref q p"
  by (cases p) (simp_all add: consumer_frame_def deref_def)

lemma consumer_frame_refl [simp]: "consumer_frame q q"
  by (simp add: consumer_frame_def)

lemma consumer_frame_trans:
  "consumer_frame q q1 \<Longrightarrow> consumer_frame q1 q2 \<Longrightarrow> consumer_frame q q2"
  by (simp add: consumer_frame_def)

lemma consumer_frame_sreg [simp]:
  "consumer_frame (q\<lparr>sreg_i := s\<rparr>) q' = consumer_frame q q'"
  "consumer_frame q (q'\<lparr>sreg_i := s\<rparr>) = consumer_frame q q'"
  by (simp_all add: consumer_frame_def)

lemma front_holds_sreg [simp]:
  "front_holds addr bytes h0 i (q\<lparr>sreg_i := s\<rparr>) = front_holds addr bytes h0 i q"
  by (simp add: front_holds_def)

lemma on_wire_sreg [simp]:
  "on_wire addr bytes i (q\<lparr>sreg_i := s\<rparr>) = on_wire addr bytes i q"
  by (simp add: on_wire_def)

lemma pending_hw_calls:
  "hw_calls q' = hw_calls q @ [c] \<Longrightarrow>
     twi_interrupt_pending q' =
       (case c of Hw_send_start_condition \<Rightarrow> True | Hw_send_byte b \<Rightarrow> True | _ \<Rightarrow> False)"
  by (simp add: twi_interrupt_pending_def)

lemma wire_pending:
  "(case wire c of Hw_send_start_condition \<Rightarrow> True | Hw_send_byte b \<Rightarrow> True | _ \<Rightarrow> False)
     = (code c \<noteq> I2C_COMMAND_STOP)"
  by (simp add: wire_def I2C_COMMAND_defs)

lemma wire_not_disable [simp]: "wire c \<noteq> Hw_disable_int"
  by (simp add: wire_def)

lemma chunk_pos: "0 < length (transfer_chunk addr bytes i)"
  by (simp add: transfer_chunk_length)

lemma chunk_le: "length (transfer_chunk addr bytes i) \<le> 18"
  by (simp add: transfer_chunk_length)

lemma issue_step:
  assumes fh: "front_holds addr bytes h0 i q"
    and lt: "unat (front_buffer_cursor q) < length (transfer_chunk addr bytes i)"
    and act: "transmitter_active q" and sreg: "\<not> sreg_i q"
    and nosw: "unat (front_buffer_cursor q) + 1 = length (transfer_chunk addr bytes i)
                 \<longrightarrow> \<not> pending_buffer_switch q"
  shows "\<exists>q'. i2c_queue_process_command exec (Suc (Suc n)) q = Inr q'
           \<and> front_holds addr bytes h0 i q' \<and> on_wire addr bytes i q' \<and> consumer_frame q q'
           \<and> unat (front_buffer_cursor q') = unat (front_buffer_cursor q) + 1
           \<and> sreg_i q' = sreg_i q"
proof -
  let ?ch = "transfer_chunk addr bytes i"
  let ?c = "unat (front_buffer_cursor q)"
  let ?fb = "deref q (front_buffer q)"
  from fh have len: "unat (buf_length ?fb) = length ?ch"
    and tk: "take (length ?ch) (commands ?fb) = ?ch"
    and cur: "current_command q = ?ch ! ?c"
    and i3: "i \<le> 3"
    and ne: "front_buffer q \<noteq> back_buffer q"
    and sz: "18 \<le> length (commands (deref q (front_buffer q)))"
      "18 \<le> length (commands (deref q (back_buffer q)))"
    using lt by (simp_all add: front_holds_def)
  from fh obtain new where new: "hw_calls q = h0 @ new"
    "bus_calls new = map wire (concat (map (transfer_chunk addr bytes) [0..<i]) @ take ?c ?ch)"
    by (auto simp: front_holds_def)
  have lenc: "length ?ch \<le> length (commands ?fb)"
    using tk by (metis length_take min.cobounded2 min.commute)
  have nth: "\<And>k. k < length ?ch \<Longrightarrow> commands ?fb ! k = ?ch ! k"
    using tk by (metis nth_take)
  have code: "code (?ch ! ?c) = (if i = 0 \<and> ?c = 0 then I2C_COMMAND_START
        else if 3 \<le> i then I2C_COMMAND_STOP else I2C_COMMAND_SEND_DATA)"
    using transfer_chunk_code [OF lt] .
  have stop_last: "3 \<le> i \<Longrightarrow> ?c + 1 = length ?ch"
    using lt by (simp add: transfer_chunk_length)
  have stop_iff: "(code (?ch ! ?c) = I2C_COMMAND_STOP) = (i = 3)"
    using code i3 by (auto simp: I2C_COMMAND_defs)
  have tk1: "take (?c + 1) ?ch = take ?c ?ch @ [?ch ! ?c]"
    using lt by (simp add: take_Suc_conv_app_nth)
  have p1: "unat (front_buffer_cursor q) < unat (buf_length ?fb)" using lt len by simp
  have p2: "code (current_command q) = I2C_COMMAND_START
               \<or> code (current_command q) = I2C_COMMAND_SEND_DATA
               \<or> code (current_command q) = I2C_COMMAND_STOP"
    using code cur by (simp split: if_splits)
  have p3: "unat (front_buffer_cursor q) + 1 = unat (buf_length ?fb)
                 \<longrightarrow> \<not> pending_buffer_switch q" using nosw len by simp
  have p4: "unat (front_buffer_cursor q) + 1 \<noteq> unat (buf_length ?fb)
                 \<longrightarrow> code (current_command q) \<noteq> I2C_COMMAND_STOP
                   \<and> unat (front_buffer_cursor q) + 1 < length (commands ?fb)"
    using stop_last stop_iff cur len lt lenc by auto
  from process_command_issue [OF sreg act p1 p2 p3 p4, of exec n]
  obtain q' where run: "i2c_queue_process_command exec (Suc (Suc n)) q = Inr q'"
    and hw: "hw_calls q' = hw_calls q @ [wire (current_command q)]"
    and cu: "unat (front_buffer_cursor q') = ?c + 1"
    and cc: "current_command q' =
               (if ?c + 1 = unat (buf_length ?fb)
                then (current_command q)\<lparr>code := I2C_COMMAND_PENDING\<rparr>
                else commands ?fb ! (?c + 1))"
    and ac: "transmitter_active q' = (code (current_command q) \<noteq> I2C_COMMAND_STOP)"
    and fr: "consumer_frame q q'" and sr: "sreg_i q' = sreg_i q"
    by blast
  from fr have same: "front_buffer q' = front_buffer q" "back_buffer q' = back_buffer q"
    "buffer_a q' = buffer_a q" "buffer_b q' = buffer_b q"
    by (simp_all add: consumer_frame_def)
  have df: "deref q' (front_buffer q') = ?fb"
    using consumer_frame_deref [OF fr] same by simp
  have fh': "front_holds addr bytes h0 i q'"
    unfolding front_holds_def
  proof (intro conjI impI)
    show "i \<le> 3" by (rule i3)
    show "front_buffer q' \<noteq> back_buffer q'" using ne same by simp
    show "18 \<le> length (commands (deref q' (front_buffer q')))" using sz df by simp
    show "18 \<le> length (commands (deref q' (back_buffer q')))"
      using sz consumer_frame_deref [OF fr] same by simp
    show "unat (buf_length (deref q' (front_buffer q'))) = length ?ch" using df len by simp
    show "take (length ?ch) (commands (deref q' (front_buffer q'))) = ?ch" using df tk by simp
    show "unat (front_buffer_cursor q') \<le> length ?ch" using cu lt by simp
    show "current_command q' = ?ch ! unat (front_buffer_cursor q')"
      if "unat (front_buffer_cursor q') < length ?ch"
      using that cu cc len nth [of "?c + 1"] by simp
    show "code (current_command q') = I2C_COMMAND_PENDING"
      if "unat (front_buffer_cursor q') = length ?ch"
      using that cu cc len by simp
    show "\<exists>new. hw_calls q' = h0 @ new
           \<and> bus_calls new = map wire (concat (map (transfer_chunk addr bytes) [0..<i])
                                @ take (unat (front_buffer_cursor q')) ?ch)"
      using new hw cu tk1 cur
      by (intro exI [of _ "new @ [wire (current_command q)]"]) simp
  qed
  have ow': "on_wire addr bytes i q'"
    unfolding on_wire_def
  proof (intro conjI impI)
    show "transmitter_active q'" if "unat (front_buffer_cursor q') < length ?ch"
      using that cu ac cur stop_iff stop_last by auto
    show "\<not> transmitter_active q'" if "unat (front_buffer_cursor q') = length ?ch \<and> i = 3"
      using that ac cur stop_iff by simp
    show "transmitter_active q' = twi_interrupt_pending q'"
      using pending_hw_calls [OF hw] ac by (simp add: wire_pending)
  qed
  from run fh' ow' fr cu sr show ?thesis by blast
qed

lemma TWI_vect_accepted:
  "status_accepted s \<Longrightarrow>
     TWI_vect exec fuel s q =
       (case i2c_queue_process_command exec fuel (q\<lparr>sreg_i := False\<rparr>) of
          Inl e \<Rightarrow> Inl e
        | Inr q1 \<Rightarrow> Inr (q1\<lparr>sreg_i := True\<rparr>))"
  by (simp add: TWI_vect_def status_accepted_def Let_def)

lemma cursor_sreg [simp]: "front_buffer_cursor (q\<lparr>sreg_i := s\<rparr>) = front_buffer_cursor q"
  by simp

lemma handler_step:
  assumes fh: "front_holds addr bytes h0 i q" and ow: "on_wire addr bytes i q"
    and np: "\<not> pending_buffer_switch q" and ip: "twi_interrupt_pending q"
    and st: "status_accepted s"
  shows "\<exists>q'. TWI_vect exec (Suc (Suc n)) s q = Inr q'
           \<and> front_holds addr bytes h0 i q' \<and> on_wire addr bytes i q' \<and> consumer_frame q q'
           \<and> unat (front_buffer_cursor q) \<le> unat (front_buffer_cursor q')"
proof -
  let ?ch = "transfer_chunk addr bytes i"
  let ?q = "q\<lparr>sreg_i := False\<rparr>"
  from ow ip have act: "transmitter_active q" by (simp add: on_wire_def)
  from fh have le: "unat (front_buffer_cursor q) \<le> length ?ch" by (simp add: front_holds_def)
  show ?thesis
  proof (cases "unat (front_buffer_cursor q) < length ?ch")
    case True
    have "\<exists>q'. i2c_queue_process_command exec (Suc (Suc n)) ?q = Inr q'
           \<and> front_holds addr bytes h0 i q' \<and> on_wire addr bytes i q' \<and> consumer_frame ?q q'
           \<and> unat (front_buffer_cursor q') = unat (front_buffer_cursor ?q) + 1
           \<and> sreg_i q' = sreg_i ?q"
      using fh True act np by (intro issue_step) simp_all
    then obtain q' where run: "i2c_queue_process_command exec (Suc (Suc n)) ?q = Inr q'"
      and inv: "front_holds addr bytes h0 i q'" "on_wire addr bytes i q'" "consumer_frame q q'"
        "unat (front_buffer_cursor q') = unat (front_buffer_cursor q) + 1"
      by auto
    from run inv show ?thesis
      by (simp add: TWI_vect_accepted [OF st])
  next
    case False
    with le have full: "unat (front_buffer_cursor q) = length ?ch" by simp
    from fh full have code: "code (current_command q) = I2C_COMMAND_PENDING"
      and len: "unat (buf_length (deref q (front_buffer q))) = length ?ch"
      by (simp_all add: front_holds_def)
    have "\<exists>q'. i2c_queue_process_command exec (Suc (Suc n)) ?q = Inr q'
           \<and> hw_calls q' = hw_calls ?q @ [Hw_disable_int]
           \<and> front_buffer_cursor q' = front_buffer_cursor ?q
           \<and> current_command q' = current_command ?q
           \<and> \<not> transmitter_active q'
           \<and> consumer_frame ?q q' \<and> sreg_i q' = sreg_i ?q"
      using act full code len np chunk_pos [of addr bytes i]
      by (intro process_command_disable) simp_all
    then obtain q' where run: "i2c_queue_process_command exec (Suc (Suc n)) ?q = Inr q'"
      and hw: "hw_calls q' = hw_calls q @ [Hw_disable_int]"
      and cu: "front_buffer_cursor q' = front_buffer_cursor q"
      and cc: "current_command q' = current_command q"
      and ac: "\<not> transmitter_active q'"
      and fr: "consumer_frame q q'"
      by auto
    from fr have same: "front_buffer q' = front_buffer q" "back_buffer q' = back_buffer q"
      "buffer_a q' = buffer_a q" "buffer_b q' = buffer_b q"
      by (simp_all add: consumer_frame_def)
    have df: "deref q' (front_buffer q') = deref q (front_buffer q)"
      using consumer_frame_deref [OF fr] same by simp
    from fh obtain new where new: "hw_calls q = h0 @ new"
      "bus_calls new = map wire (concat (map (transfer_chunk addr bytes) [0..<i])
          @ take (unat (front_buffer_cursor q)) ?ch)"
      by (auto simp: front_holds_def)
    have ex: "\<exists>new. hw_calls q' = h0 @ new
           \<and> bus_calls new = map wire (concat (map (transfer_chunk addr bytes) [0..<i])
                                @ take (unat (front_buffer_cursor q')) ?ch)"
      using new hw cu by (intro exI [of _ "new @ [Hw_disable_int]"]) simp
    have fh': "front_holds addr bytes h0 i q'"
      using fh ex same df cu cc consumer_frame_deref [OF fr] unfolding front_holds_def by simp
    have ow': "on_wire addr bytes i q'"
      using ac cu full pending_hw_calls [OF hw] by (simp add: on_wire_def)
    from run fh' ow' fr cu show ?thesis
      by (simp add: TWI_vect_accepted [OF st])
  qed
qed

lemma fuel_2: "2 \<le> fuel \<Longrightarrow> \<exists>m. fuel = Suc (Suc m)"
  by (rule exI [of _ "fuel - 2"]) simp

lemma preempting_handlers_drain:
  assumes st: "\<forall>s\<in>set ss. status_accepted s" and hf: "2 \<le> hf"
  shows "front_holds addr bytes h0 i q \<Longrightarrow> on_wire addr bytes i q
           \<Longrightarrow> \<not> pending_buffer_switch q \<Longrightarrow>
         \<exists>q'. preempting_handlers exec hf ss q = Inr q'
           \<and> front_holds addr bytes h0 i q' \<and> on_wire addr bytes i q' \<and> consumer_frame q q'
           \<and> unat (front_buffer_cursor q) \<le> unat (front_buffer_cursor q')"
  using st
proof (induction ss arbitrary: q)
  case Nil
  then show ?case by simp
next
  case (Cons s ss)
  from fuel_2 [OF hf] obtain m where m: "hf = Suc (Suc m)" ..
  show ?case
  proof (cases "twi_interrupt_pending q")
    case False
    with Cons.prems show ?thesis by simp
  next
    case True
    from Cons.prems have s: "status_accepted s" and ss: "\<forall>s\<in>set ss. status_accepted s" by simp_all
    from handler_step [OF Cons.prems(1,2,3) True s, of exec m]
    obtain q1 where run: "TWI_vect exec hf s q = Inr q1"
      and inv: "front_holds addr bytes h0 i q1" "on_wire addr bytes i q1"
      and fr: "consumer_frame q q1"
      and cu: "unat (front_buffer_cursor q) \<le> unat (front_buffer_cursor q1)"
      unfolding m by blast
    from fr Cons.prems(3) have np: "\<not> pending_buffer_switch q1" by (simp add: consumer_frame_def)
    from Cons.IH [OF inv np ss]
    obtain q' where run': "preempting_handlers exec hf ss q1 = Inr q'"
      and inv': "front_holds addr bytes h0 i q'" "on_wire addr bytes i q'"
      and fr': "consumer_frame q1 q'"
      and cu': "unat (front_buffer_cursor q1) \<le> unat (front_buffer_cursor q')"
      by blast
    from True run run' inv' consumer_frame_trans [OF fr fr'] cu cu' show ?thesis
      by simp
  qed
qed

subsubsection \<open>The producer callback, chunk by chunk\<close>

lemma progmem_cb_chunk_0:
  assumes bsz: "18 \<le> bsz"
    and mem: "mem q ctrl = \<lparr>ctrl_length = 40, counter = 0, ctrl_data = bytes\<rparr>"
    and empty: "buf_length (deref q (back_buffer q)) = 0"
    and sz: "18 \<le> length (commands (deref q (back_buffer q)))"
    and ne: "front_buffer q \<noteq> back_buffer q"
    and task: "elements (tasks q) = [\<lparr>callback = cb, task_data = ctrl, address = addr\<rparr>]"
    and even: "addr AND 1 = 0"
  shows "\<exists>q'. i2c_transmit_progmem_cb bsz ctrl q = Inr (True, q')
     \<and> unat (buf_length (deref q' (back_buffer q'))) = 18
     \<and> take 18 (commands (deref q' (back_buffer q'))) = transfer_chunk addr bytes 0
     \<and> length (commands (deref q' (back_buffer q'))) = length (commands (deref q (back_buffer q)))
     \<and> deref q' (front_buffer q') = deref q (front_buffer q)
     \<and> mem q' ctrl = \<lparr>ctrl_length = 40, counter = 16, ctrl_data = bytes\<rparr>
     \<and> producer_frame q q'"
proof -
  from sz have "commands (deref q (back_buffer q)) \<noteq> []" by auto
  with assms show ?thesis
    by (cases "front_buffer q"; cases "back_buffer q")
      (simp_all add: progmem_defs engine_defs Let_def deref_def store_def transfer_chunk_def
        SendData_def take_step upt_last_step producer_frame_def)
qed

lemma progmem_cb_chunk_1:
  assumes bsz: "18 \<le> bsz"
    and mem: "mem q ctrl = \<lparr>ctrl_length = 40, counter = 16, ctrl_data = bytes\<rparr>"
    and empty: "buf_length (deref q (back_buffer q)) = 0"
    and sz: "18 \<le> length (commands (deref q (back_buffer q)))"
    and ne: "front_buffer q \<noteq> back_buffer q"
  shows "\<exists>q'. i2c_transmit_progmem_cb bsz ctrl q = Inr (True, q')
     \<and> unat (buf_length (deref q' (back_buffer q'))) = 16
     \<and> take 16 (commands (deref q' (back_buffer q'))) = transfer_chunk addr bytes 1
     \<and> length (commands (deref q' (back_buffer q'))) = length (commands (deref q (back_buffer q)))
     \<and> deref q' (front_buffer q') = deref q (front_buffer q)
     \<and> mem q' ctrl = \<lparr>ctrl_length = 40, counter = 32, ctrl_data = bytes\<rparr>
     \<and> producer_frame q q'"
proof -
  from sz have "commands (deref q (back_buffer q)) \<noteq> []" by auto
  with assms show ?thesis
    by (cases "front_buffer q"; cases "back_buffer q")
      (simp_all add: progmem_defs engine_defs Let_def deref_def store_def transfer_chunk_def
        SendData_def take_step upt_last_step producer_frame_def)
qed

lemma progmem_cb_chunk_2:
  assumes bsz: "18 \<le> bsz"
    and mem: "mem q ctrl = \<lparr>ctrl_length = 40, counter = 32, ctrl_data = bytes\<rparr>"
    and empty: "buf_length (deref q (back_buffer q)) = 0"
    and sz: "18 \<le> length (commands (deref q (back_buffer q)))"
    and ne: "front_buffer q \<noteq> back_buffer q"
  shows "\<exists>q'. i2c_transmit_progmem_cb bsz ctrl q = Inr (True, q')
     \<and> unat (buf_length (deref q' (back_buffer q'))) = 8
     \<and> take 8 (commands (deref q' (back_buffer q'))) = transfer_chunk addr bytes 2
     \<and> length (commands (deref q' (back_buffer q'))) = length (commands (deref q (back_buffer q)))
     \<and> deref q' (front_buffer q') = deref q (front_buffer q)
     \<and> mem q' ctrl = \<lparr>ctrl_length = 40, counter = 40, ctrl_data = bytes\<rparr>
     \<and> producer_frame q q'"
proof -
  from sz have "commands (deref q (back_buffer q)) \<noteq> []" by auto
  with assms show ?thesis
    by (cases "front_buffer q"; cases "back_buffer q")
      (simp_all add: progmem_defs engine_defs Let_def deref_def store_def transfer_chunk_def
        SendData_def take_step upt_last_step producer_frame_def)
qed

lemma progmem_cb_chunk_3:
  assumes bsz: "18 \<le> bsz"
    and mem: "mem q ctrl = \<lparr>ctrl_length = 40, counter = 40, ctrl_data = bytes\<rparr>"
    and empty: "buf_length (deref q (back_buffer q)) = 0"
    and sz: "18 \<le> length (commands (deref q (back_buffer q)))"
    and ne: "front_buffer q \<noteq> back_buffer q"
  shows "\<exists>q'. i2c_transmit_progmem_cb bsz ctrl q = Inr (False, q')
     \<and> unat (buf_length (deref q' (back_buffer q'))) = 1
     \<and> take 1 (commands (deref q' (back_buffer q'))) = transfer_chunk addr bytes 3
     \<and> length (commands (deref q' (back_buffer q'))) = length (commands (deref q (back_buffer q)))
     \<and> deref q' (front_buffer q') = deref q (front_buffer q)
     \<and> mem q' ctrl = \<lparr>ctrl_length = 40, counter = 0, ctrl_data = bytes\<rparr>
     \<and> producer_frame q q'"
proof -
  from sz have "commands (deref q (back_buffer q)) \<noteq> []" by auto
  with assms show ?thesis
    by (cases "front_buffer q"; cases "back_buffer q")
      (simp_all add: progmem_defs engine_defs Let_def deref_def store_def transfer_chunk_def
        SendData_def take_step upt_last_step producer_frame_def)
qed

lemma progmem_cb_chunk:
  assumes bsz: "18 \<le> bsz" and p: "p \<le> 3"
    and mem: "mem q ctrl = \<lparr>ctrl_length = 40, counter = chunk_counter p, ctrl_data = bytes\<rparr>"
    and empty: "buf_length (deref q (back_buffer q)) = 0"
    and sz: "18 \<le> length (commands (deref q (back_buffer q)))"
    and ne: "front_buffer q \<noteq> back_buffer q"
    and task: "elements (tasks q) = [\<lparr>callback = cb, task_data = ctrl, address = addr\<rparr>]"
    and even: "addr AND 1 = 0"
  shows "\<exists>q'. i2c_transmit_progmem_cb bsz ctrl q = Inr (p < 3, q')
     \<and> unat (buf_length (deref q' (back_buffer q'))) = length (transfer_chunk addr bytes p)
     \<and> take (length (transfer_chunk addr bytes p)) (commands (deref q' (back_buffer q')))
          = transfer_chunk addr bytes p
     \<and> length (commands (deref q' (back_buffer q'))) = length (commands (deref q (back_buffer q)))
     \<and> deref q' (front_buffer q') = deref q (front_buffer q)
     \<and> mem q' ctrl = \<lparr>ctrl_length = 40, counter = chunk_counter (p + 1), ctrl_data = bytes\<rparr>
     \<and> producer_frame q q'"
proof -
  from p consider "p = 0" | "p = 1" | "p = 2" | "p = 3" by linarith
  then show ?thesis
  proof cases
    case 1
    with mem have m: "mem q ctrl = \<lparr>ctrl_length = 40, counter = 0, ctrl_data = bytes\<rparr>"
      by (simp add: chunk_counter_def)
    from progmem_cb_chunk_0 [OF bsz m empty sz ne task even] show ?thesis
      using 1 by (simp add: chunk_counter_def transfer_chunk_length)
  next
    case 2
    with mem have m: "mem q ctrl = \<lparr>ctrl_length = 40, counter = 16, ctrl_data = bytes\<rparr>"
      by (simp add: chunk_counter_def)
    from progmem_cb_chunk_1 [OF bsz m empty sz ne, of addr] show ?thesis
      using 2 by (simp add: chunk_counter_def transfer_chunk_length)
  next
    case 3
    with mem have m: "mem q ctrl = \<lparr>ctrl_length = 40, counter = 32, ctrl_data = bytes\<rparr>"
      by (simp add: chunk_counter_def)
    from progmem_cb_chunk_2 [OF bsz m empty sz ne, of addr] show ?thesis
      using 3 by (simp add: chunk_counter_def transfer_chunk_length)
  next
    case 4
    with mem have m: "mem q ctrl = \<lparr>ctrl_length = 40, counter = 40, ctrl_data = bytes\<rparr>"
      by (simp add: chunk_counter_def)
    from progmem_cb_chunk_3 [OF bsz m empty sz ne, of addr] show ?thesis
      using 4 by (simp add: chunk_counter_def transfer_chunk_length)
  qed
qed

subsubsection \<open>Frames\<close>

lemma chunks_made_frame:
  "queue_frame q q' \<Longrightarrow>
     chunks_made addr bytes cb ctrl c0 p j q' = chunks_made addr bytes cb ctrl c0 p j q"
  by (simp add: queue_frame_def chunks_made_def)

lemma consumer_queue_frame: "consumer_frame q q' \<Longrightarrow> queue_frame q q'"
  by (simp add: consumer_frame_def queue_frame_def)

lemma switch_queue_frame: "switch_frame q q' \<Longrightarrow> queue_frame q q'"
  by (simp add: switch_frame_def queue_frame_def)

lemma queue_frame_trans: "queue_frame q q1 \<Longrightarrow> queue_frame q1 q2 \<Longrightarrow> queue_frame q q2"
  by (simp add: queue_frame_def)

lemma queue_frame_active [simp]:
  "queue_frame (q\<lparr>transmitter_active := a\<rparr>) q' = queue_frame q q'"
  by (simp add: queue_frame_def)

lemma pending_cong:
  "hw_calls q' = hw_calls q \<Longrightarrow> twi_interrupt_pending q' = twi_interrupt_pending q"
  by (simp add: twi_interrupt_pending_def)

lemma front_holds_updates [simp]:
  "front_holds addr bytes h0 i (q\<lparr>cb_calls := x1\<rparr>) = front_holds addr bytes h0 i q"
  "front_holds addr bytes h0 i (q\<lparr>tasks := x2\<rparr>) = front_holds addr bytes h0 i q"
  "front_holds addr bytes h0 i (q\<lparr>tasks_n := x3\<rparr>) = front_holds addr bytes h0 i q"
  "front_holds addr bytes h0 i (q\<lparr>pending_buffer_switch := x4\<rparr>) = front_holds addr bytes h0 i q"
  "front_holds addr bytes h0 i (q\<lparr>transmitter_active := x5\<rparr>) = front_holds addr bytes h0 i q"
  "front_holds addr bytes h0 i (q\<lparr>mem := x6\<rparr>) = front_holds addr bytes h0 i q"
  by (simp_all add: front_holds_def)

lemma on_wire_updates [simp]:
  "on_wire addr bytes i (q\<lparr>cb_calls := x1\<rparr>) = on_wire addr bytes i q"
  "on_wire addr bytes i (q\<lparr>tasks := x2\<rparr>) = on_wire addr bytes i q"
  "on_wire addr bytes i (q\<lparr>tasks_n := x3\<rparr>) = on_wire addr bytes i q"
  "on_wire addr bytes i (q\<lparr>pending_buffer_switch := x4\<rparr>) = on_wire addr bytes i q"
  "on_wire addr bytes i (q\<lparr>mem := x6\<rparr>) = on_wire addr bytes i q"
  by (simp_all add: on_wire_def)

lemma back_holds_updates [simp]:
  "back_holds addr bytes k (q\<lparr>cb_calls := x1\<rparr>) = back_holds addr bytes k q"
  "back_holds addr bytes k (q\<lparr>tasks := x2\<rparr>) = back_holds addr bytes k q"
  "back_holds addr bytes k (q\<lparr>tasks_n := x3\<rparr>) = back_holds addr bytes k q"
  "back_holds addr bytes k (q\<lparr>pending_buffer_switch := x4\<rparr>) = back_holds addr bytes k q"
  "back_holds addr bytes k (q\<lparr>transmitter_active := x5\<rparr>) = back_holds addr bytes k q"
  "back_holds addr bytes k (q\<lparr>mem := x6\<rparr>) = back_holds addr bytes k q"
  "back_holds addr bytes k (q\<lparr>sreg_i := x7\<rparr>) = back_holds addr bytes k q"
  "back_holds addr bytes k (q\<lparr>hw_calls := x8\<rparr>) = back_holds addr bytes k q"
  "back_holds addr bytes k (q\<lparr>front_buffer_cursor := x9\<rparr>) = back_holds addr bytes k q"
  "back_holds addr bytes k (q\<lparr>current_command := x10\<rparr>) = back_holds addr bytes k q"
  by (simp_all add: back_holds_def)

lemma back_holds_consumer:
  "consumer_frame q q' \<Longrightarrow> back_holds addr bytes k q' = back_holds addr bytes k q"
  using consumer_frame_deref [of q q']
  by (simp add: back_holds_def consumer_frame_def)

lemma issued_sreg [simp]: "issued i (q\<lparr>sreg_i := s\<rparr>) = issued i q"
  by (simp add: issued_def)

lemma preempting_handlers_idle:
  "\<not> twi_interrupt_pending q \<Longrightarrow> preempting_handlers exec hf ss q = Inr q"
  by (cases ss) simp_all

subsubsection \<open>One call of the producer callback, preempted by handlers\<close>

lemma front_holds_producer:
  assumes fh: "front_holds addr bytes h0 i q" and pf: "producer_frame q q'"
    and df: "deref q' (front_buffer q') = deref q (front_buffer q)"
    and lb: "length (commands (deref q' (back_buffer q'))) = length (commands (deref q (back_buffer q)))"
  shows "front_holds addr bytes h0 i q'"
  using fh pf df lb by (simp add: front_holds_def producer_frame_def)

lemma on_wire_producer:
  assumes ow: "on_wire addr bytes i q" and pf: "producer_frame q q'"
  shows "on_wire addr bytes i q'"
proof -
  from pf have "hw_calls q' = hw_calls q" by (simp add: producer_frame_def)
  from pending_cong [OF this] ow pf show ?thesis
    by (auto simp: on_wire_def producer_frame_def)
qed

lemma exec_chunk:
  assumes pre: "preemptible bsz exec cb ctrl" and bsz: "18 \<le> bsz" and even: "addr AND 1 = 0"
    and le: "loop_entry addr bytes cb ctrl h0 c0 i q"
  shows "\<exists>q'. exec cb ctrl q = Inr (i + 1 < 3, q')
           \<and> after_callback addr bytes cb ctrl h0 c0 i q' \<and> issued i q \<le> issued i q'"
proof -
  from pre obtain before after exec2 hf where hf: "2 \<le> hf"
    and sb: "\<forall>s\<in>set before. status_accepted s" and sa: "\<forall>s\<in>set after. status_accepted s"
    and ex: "exec cb ctrl q = preempted (i2c_transmit_progmem_cb bsz ctrl) exec2 hf before after q"
    unfolding preemptible_def by blast
  from le have i2: "i \<le> 2" and fh: "front_holds addr bytes h0 i q" and ow: "on_wire addr bytes i q"
    and np: "\<not> pending_buffer_switch q" and empty: "buf_length (deref q (back_buffer q)) = 0"
    and cm: "chunks_made addr bytes cb ctrl c0 (i + 1) (i + 1) q"
    by (simp_all add: loop_entry_def)
  from preempting_handlers_drain [OF sb hf fh ow np, of exec2]
  obtain q1 where run1: "preempting_handlers exec2 hf before q = Inr q1"
    and fh1: "front_holds addr bytes h0 i q1" and ow1: "on_wire addr bytes i q1"
    and fr1: "consumer_frame q q1"
    and cu1: "unat (front_buffer_cursor q) \<le> unat (front_buffer_cursor q1)"
    by blast
  from fr1 np have np1: "\<not> pending_buffer_switch q1" by (simp add: consumer_frame_def)
  from fr1 have bb1: "back_buffer q1 = back_buffer q" by (simp add: consumer_frame_def)
  from empty consumer_frame_deref [OF fr1] bb1
  have empty1: "buf_length (deref q1 (back_buffer q1)) = 0" by simp
  from cm chunks_made_frame [OF consumer_queue_frame [OF fr1]]
  have cm1: "chunks_made addr bytes cb ctrl c0 (i + 1) (i + 1) q1" by simp
  from cm1 i2 have mem1: "mem q1 ctrl = \<lparr>ctrl_length = 40, counter = chunk_counter (i + 1), ctrl_data = bytes\<rparr>"
    and task1: "elements (tasks q1) = [\<lparr>callback = cb, task_data = ctrl, address = addr\<rparr>]"
    by (simp_all add: chunks_made_def)
  from fh1 have ne1: "front_buffer q1 \<noteq> back_buffer q1"
    and sz1: "18 \<le> length (commands (deref q1 (back_buffer q1)))"
    by (simp_all add: front_holds_def)
  from i2 have p: "i + 1 \<le> 3" by simp
  from progmem_cb_chunk [OF bsz p mem1 empty1 sz1 ne1 task1 even]
  obtain q2 where run2: "i2c_transmit_progmem_cb bsz ctrl q1 = Inr (i + 1 < 3, q2)"
    and bl2: "unat (buf_length (deref q2 (back_buffer q2))) = length (transfer_chunk addr bytes (i + 1))"
    and bt2: "take (length (transfer_chunk addr bytes (i + 1))) (commands (deref q2 (back_buffer q2)))
          = transfer_chunk addr bytes (i + 1)"
    and lb2: "length (commands (deref q2 (back_buffer q2))) = length (commands (deref q1 (back_buffer q1)))"
    and df2: "deref q2 (front_buffer q2) = deref q1 (front_buffer q1)"
    and mem2: "mem q2 ctrl = \<lparr>ctrl_length = 40, counter = chunk_counter (i + 1 + 1), ctrl_data = bytes\<rparr>"
    and pf2: "producer_frame q1 q2"
    by blast
  from front_holds_producer [OF fh1 pf2 df2 lb2] have fh2: "front_holds addr bytes h0 i q2" .
  from on_wire_producer [OF ow1 pf2] have ow2: "on_wire addr bytes i q2" .
  from pf2 np1 have np2: "\<not> pending_buffer_switch q2" by (simp add: producer_frame_def)
  from preempting_handlers_drain [OF sa hf fh2 ow2 np2, of exec2]
  obtain q3 where run3: "preempting_handlers exec2 hf after q2 = Inr q3"
    and fh3: "front_holds addr bytes h0 i q3" and ow3: "on_wire addr bytes i q3"
    and fr3: "consumer_frame q2 q3"
    and cu3: "unat (front_buffer_cursor q2) \<le> unat (front_buffer_cursor q3)"
    by blast
  from fr3 np2 have np3: "\<not> pending_buffer_switch q3" by (simp add: consumer_frame_def)
  from bl2 bt2 have "back_holds addr bytes (i + 1) q2" by (simp add: back_holds_def)
  with back_holds_consumer [OF fr3] have bh3: "back_holds addr bytes (i + 1) q3" by simp
  from cm1 pf2 mem2 have "chunks_made addr bytes cb ctrl c0 (i + 2) (i + 1) q2"
    by (simp add: chunks_made_def producer_frame_def)
  with chunks_made_frame [OF consumer_queue_frame [OF fr3]]
  have cm3: "chunks_made addr bytes cb ctrl c0 (i + 2) (i + 1) q3" by simp
  from pf2 have "front_buffer_cursor q2 = front_buffer_cursor q1" by (simp add: producer_frame_def)
  with cu1 cu3 have "issued i q \<le> issued i q3" by (simp add: issued_def)
  moreover from ex run1 run2 run3 have "exec cb ctrl q = Inr (i + 1 < 3, q3)"
    by (simp add: preempted_def)
  moreover from i2 fh3 ow3 np3 bh3 cm3 have "after_callback addr bytes cb ctrl h0 c0 i q3"
    by (simp add: after_callback_def)
  ultimately show ?thesis by blast
qed

subsubsection \<open>Switching to the next chunk\<close>

lemma switch_next_chunk:
  assumes ne: "front_buffer q \<noteq> back_buffer q" and bh: "back_holds addr bytes k q"
    and k3: "k \<le> 3"
    and szf: "18 \<le> length (commands (deref q (front_buffer q)))"
    and szb: "18 \<le> length (commands (deref q (back_buffer q)))"
    and full: "unat (front_buffer_cursor q) = unat (buf_length (deref q (front_buffer q)))"
    and hw: "\<exists>new. hw_calls q = h0 @ new
               \<and> bus_calls new = map wire (concat (map (transfer_chunk addr bytes) [0..<k]))"
  shows "\<exists>q'. i2c_queue_switch_buffers q = Inr q' \<and> front_holds addr bytes h0 k q'
           \<and> front_buffer_cursor q' = 0 \<and> \<not> pending_buffer_switch q'
           \<and> buf_length (deref q' (back_buffer q')) = 0 \<and> switch_frame q q'"
proof -
  let ?ch = "transfer_chunk addr bytes k"
  from bh have bl: "unat (buf_length (deref q (back_buffer q))) = length ?ch"
    and bt: "take (length ?ch) (commands (deref q (back_buffer q))) = ?ch"
    by (simp_all add: back_holds_def)
  from bl chunk_pos [of addr bytes k] have pos: "0 < unat (buf_length (deref q (back_buffer q)))"
    by simp
  from szb have inb: "commands (deref q (back_buffer q)) \<noteq> []" by auto
  from switch_buffers_result [OF ne pos full inb]
  obtain q' where run: "i2c_queue_switch_buffers q = Inr q'"
    and f: "front_buffer q' = back_buffer q" and b: "back_buffer q' = front_buffer q"
    and df: "deref q' (front_buffer q') = deref q (back_buffer q)"
    and bl0: "buf_length (deref q' (back_buffer q')) = 0"
    and cb: "commands (deref q' (back_buffer q')) = commands (deref q (front_buffer q))"
    and cu: "front_buffer_cursor q' = 0"
    and cc: "current_command q' = commands (deref q (back_buffer q)) ! 0"
    and np: "\<not> pending_buffer_switch q'"
    and sf: "switch_frame q q'"
    by blast
  have c0: "commands (deref q (back_buffer q)) ! 0 = ?ch ! 0"
    using bt chunk_pos [of addr bytes k] by (metis nth_take)
  from sf have hw': "hw_calls q' = hw_calls q" by (simp add: switch_frame_def)
  have "front_holds addr bytes h0 k q'"
    unfolding front_holds_def
    using k3 ne f b df cb cu cc c0 bl bt szf szb hw hw' chunk_pos [of addr bytes k]
    by simp
  with run cu np bl0 sf show ?thesis by blast
qed

lemma first_code_not_pending:
  "code (transfer_chunk addr bytes k ! 0) \<noteq> I2C_COMMAND_PENDING"
  using transfer_chunk_code [of 0 addr bytes k] chunk_pos [of addr bytes k]
  by (simp add: I2C_COMMAND_defs)

lemma start_next_chunk:
  assumes ne: "front_buffer q \<noteq> back_buffer q" and bh: "back_holds addr bytes k q"
    and k3: "k \<le> 3"
    and szf: "18 \<le> length (commands (deref q (front_buffer q)))"
    and szb: "18 \<le> length (commands (deref q (back_buffer q)))"
    and full: "unat (front_buffer_cursor q) = unat (buf_length (deref q (front_buffer q)))"
    and hw: "\<exists>new. hw_calls q = h0 @ new
               \<and> bus_calls new = map wire (concat (map (transfer_chunk addr bytes) [0..<k]))"
    and inact: "\<not> transmitter_active q" and sreg: "\<not> sreg_i q"
  shows "\<exists>q4 q'. i2c_queue_switch_buffers q = Inr q4
           \<and> i2c_queue_start_transmitter exec (Suc (Suc (Suc n))) q4 = Inr q'
           \<and> front_holds addr bytes h0 k q' \<and> on_wire addr bytes k q'
           \<and> unat (front_buffer_cursor q') = 1 \<and> \<not> pending_buffer_switch q'
           \<and> buf_length (deref q' (back_buffer q')) = 0 \<and> \<not> sreg_i q' \<and> queue_frame q q'"
proof -
  let ?ch = "transfer_chunk addr bytes k"
  from switch_next_chunk [OF ne bh k3 szf szb full hw]
  obtain q4 where run: "i2c_queue_switch_buffers q = Inr q4"
    and fh: "front_holds addr bytes h0 k q4"
    and cu: "front_buffer_cursor q4 = 0" and np: "\<not> pending_buffer_switch q4"
    and bl0: "buf_length (deref q4 (back_buffer q4)) = 0" and sf: "switch_frame q q4"
    by blast
  let ?q = "q4\<lparr>transmitter_active := True\<rparr>"
  from sf inact sreg have ia: "\<not> transmitter_active q4" and sr: "\<not> sreg_i q4"
    by (simp_all add: switch_frame_def)
  from fh cu chunk_pos [of addr bytes k] have cur: "current_command q4 = ?ch ! 0"
    by (simp add: front_holds_def)
  have start: "i2c_queue_start_transmitter exec (Suc (Suc (Suc n))) q4
                 = i2c_queue_process_command exec (Suc (Suc n)) ?q"
    using ia cur first_code_not_pending [of addr bytes k] by simp
  have "\<exists>q'. i2c_queue_process_command exec (Suc (Suc n)) ?q = Inr q'
           \<and> front_holds addr bytes h0 k q' \<and> on_wire addr bytes k q' \<and> consumer_frame ?q q'
           \<and> unat (front_buffer_cursor q') = unat (front_buffer_cursor ?q) + 1
           \<and> sreg_i q' = sreg_i ?q"
    using fh cu np sr chunk_pos [of addr bytes k] by (intro issue_step) simp_all
  then obtain q' where run': "i2c_queue_process_command exec (Suc (Suc n)) ?q = Inr q'"
    and fh': "front_holds addr bytes h0 k q'" and ow': "on_wire addr bytes k q'"
    and fr: "consumer_frame ?q q'"
    and cu': "unat (front_buffer_cursor q') = unat (front_buffer_cursor ?q) + 1"
    and sr': "sreg_i q' = sreg_i ?q"
    by blast
  from fr np have np': "\<not> pending_buffer_switch q'" by (simp add: consumer_frame_def)
  from fr have bb: "back_buffer q' = back_buffer q4" by (simp add: consumer_frame_def)
  from consumer_frame_deref [OF fr, of "back_buffer q4"] bl0 bb
  have bl': "buf_length (deref q' (back_buffer q')) = 0" by simp
  from consumer_queue_frame [OF fr] have "queue_frame q4 q'" by simp
  with switch_queue_frame [OF sf] have qf: "queue_frame q q'" by (rule queue_frame_trans)
  from run start run' fh' ow' cu' cu np' bl' sr' sr qf show ?thesis by simp
qed

subsubsection \<open>The fetch loop\<close>

lemma fetch_loop_body:
  assumes n: "tasks_n q \<noteq> 0" and ts: "elements (tasks q) = task # rest"
    and empty: "buf_length (deref q (back_buffer q)) = 0"
    and ex: "exec (callback task) (task_data task) (q\<lparr>sreg_i := True\<rparr>) = Inr (keep, q1)"
    and pos: "0 < unat (buf_length (deref q1 (back_buffer q1)))"
    and ts1: "elements (tasks q1) = task1 # rest1"
  shows "i2c_queue_fetch_commands_loop exec (Suc n) q =
     (let q2 = q1\<lparr>sreg_i := False,
                  cb_calls := cb_calls q1 @ [(task, keep, buffer_contents (deref q1 (back_buffer q1)))]\<rparr>;
          q3 = (if keep then q2
                else q2\<lparr>tasks := (tasks q1)\<lparr>elements := rest1\<rparr>, tasks_n := tasks_n q1 - 1\<rparr>)
      in if \<not> transmitter_active q1
         then (case i2c_queue_switch_buffers q3 of
                 Inl e \<Rightarrow> Inl e
               | Inr q4 \<Rightarrow>
                   (case i2c_queue_start_transmitter exec n q4 of
                      Inl e \<Rightarrow> Inl e
                    | Inr q5 \<Rightarrow> i2c_queue_fetch_commands_loop exec n q5))
         else Inr (q3\<lparr>pending_buffer_switch := True\<rparr>))"
proof -
  from pos have pos': "0 < buf_length (deref q1 (back_buffer q1))"
    by (simp add: word_less_nat_alt)
  show ?thesis
    using n ts empty ex pos' ts1
    by (simp add: Let_def ring_buffer_get_first_def i2c_queue_switch_tasks_def
        ring_buffer_can_read_n_elements_def ring_buffer_discard_def)
qed

lemma chunks_made_sreg [simp]:
  "chunks_made addr bytes cb ctrl c0 p j (q\<lparr>sreg_i := s\<rparr>) = chunks_made addr bytes cb ctrl c0 p j q"
  by (simp add: chunks_made_def)

lemma loop_entry_sreg [simp]:
  "loop_entry addr bytes cb ctrl h0 c0 i (q\<lparr>sreg_i := s\<rparr>) = loop_entry addr bytes cb ctrl h0 c0 i q"
  by (simp add: loop_entry_def)

lemma chunk_offset_Suc:
  "i \<le> 2 \<Longrightarrow> chunk_offset (i + 1) = chunk_offset i + length (transfer_chunk addr bytes i)"
  by (simp add: chunk_offset_def transfer_chunk_length)

lemma front_drained:
  assumes fh: "front_holds addr bytes h0 i q" and ow: "on_wire addr bytes i q"
    and inact: "\<not> transmitter_active q"
  shows "unat (front_buffer_cursor q) = length (transfer_chunk addr bytes i)"
  using assms by (auto simp: front_holds_def on_wire_def)

lemma front_full_hw:
  assumes fh: "front_holds addr bytes h0 i q"
    and full: "unat (front_buffer_cursor q) = length (transfer_chunk addr bytes i)"
  shows "\<exists>new. hw_calls q = h0 @ new
               \<and> bus_calls new = map wire (concat (map (transfer_chunk addr bytes) [0..<i + 1]))"
  using assms by (auto simp: front_holds_def)

lemma fuel_4: "4 \<le> fuel \<Longrightarrow> \<exists>m. fuel = Suc (Suc (Suc (Suc m)))"
  by (rule exI [of _ "fuel - 4"]) simp

lemma fetch_loop_iteration:
  assumes pre: "preemptible bsz exec cb ctrl" and bsz: "18 \<le> bsz" and even: "addr AND 1 = 0"
    and le: "loop_entry addr bytes cb ctrl h0 c0 i q" and sreg: "\<not> sreg_i q"
  shows "(\<exists>q'. i2c_queue_fetch_commands_loop exec (Suc (Suc (Suc (Suc n)))) q = Inr q'
             \<and> waiting addr bytes cb ctrl h0 c0 i q' \<and> \<not> sreg_i q' \<and> issued i q \<le> issued i q')
       \<or> (\<exists>q5. i2c_queue_fetch_commands_loop exec (Suc (Suc (Suc (Suc n)))) q
                  = i2c_queue_fetch_commands_loop exec (Suc (Suc (Suc n))) q5
             \<and> front_holds addr bytes h0 (i + 1) q5 \<and> on_wire addr bytes (i + 1) q5
             \<and> \<not> pending_buffer_switch q5 \<and> buf_length (deref q5 (back_buffer q5)) = 0
             \<and> chunks_made addr bytes cb ctrl c0 (i + 2) (i + 2) q5
             \<and> \<not> sreg_i q5 \<and> issued i q \<le> issued (i + 1) q5)"
proof -
  let ?task = "\<lparr>callback = cb, task_data = ctrl, address = addr\<rparr>"
  let ?f = "\<lambda>k. (?task, k < 3, transfer_chunk addr bytes k)"
  from le have le': "loop_entry addr bytes cb ctrl h0 c0 i (q\<lparr>sreg_i := True\<rparr>)" by simp
  from le have i2: "i \<le> 2" and empty: "buf_length (deref q (back_buffer q)) = 0"
    and cm: "chunks_made addr bytes cb ctrl c0 (i + 1) (i + 1) q"
    by (simp_all add: loop_entry_def)
  from cm i2 have tn: "tasks_n q \<noteq> 0" and ts: "elements (tasks q) = ?task # []"
    by (simp_all add: chunks_made_def)
  from exec_chunk [OF pre bsz even le']
  obtain q1 where ex: "exec cb ctrl (q\<lparr>sreg_i := True\<rparr>) = Inr (i + 1 < 3, q1)"
    and ac: "after_callback addr bytes cb ctrl h0 c0 i q1"
    and iss: "issued i q \<le> issued i q1"
    by auto
  from ac have fh1: "front_holds addr bytes h0 i q1" and ow1: "on_wire addr bytes i q1"
    and np1: "\<not> pending_buffer_switch q1" and bh1: "back_holds addr bytes (i + 1) q1"
    and cm1: "chunks_made addr bytes cb ctrl c0 (i + 2) (i + 1) q1"
    by (simp_all add: after_callback_def)
  from cm1 i2 have ts1: "elements (tasks q1) = ?task # []" and tn1: "tasks_n q1 = 1"
    and cc1: "cb_calls q1 = c0 @ map ?f [0..<i + 1]"
    and mem1: "mem q1 ctrl = \<lparr>ctrl_length = 40, counter = chunk_counter (i + 2), ctrl_data = bytes\<rparr>"
    by (simp_all add: chunks_made_def)
  from bh1 have bc: "buffer_contents (deref q1 (back_buffer q1)) = transfer_chunk addr bytes (i + 1)"
    by (simp add: back_holds_def buffer_contents_def)
  from bh1 chunk_pos [of addr bytes "i + 1"]
  have pos: "0 < unat (buf_length (deref q1 (back_buffer q1)))"
    by (simp add: back_holds_def)
  define q3 where "q3 =
     (if i + 1 < 3
      then q1\<lparr>sreg_i := False, cb_calls := cb_calls q1 @ [?f (i + 1)]\<rparr>
      else q1\<lparr>sreg_i := False, cb_calls := cb_calls q1 @ [?f (i + 1)],
              tasks := (tasks q1)\<lparr>elements := []\<rparr>, tasks_n := tasks_n q1 - 1\<rparr>)"
  have ex': "exec (callback ?task) (task_data ?task) (q\<lparr>sreg_i := True\<rparr>) = Inr (i + 1 < 3, q1)"
    using ex by simp
  from fetch_loop_body [where exec = exec and n = "Suc (Suc (Suc n))" and q = q
      and task = ?task and keep = "i + 1 < 3" and ?q1.0 = q1, OF tn ts empty ex' pos ts1]
  have body: "i2c_queue_fetch_commands_loop exec (Suc (Suc (Suc (Suc n)))) q =
     (if \<not> transmitter_active q1
      then (case i2c_queue_switch_buffers q3 of
              Inl e \<Rightarrow> Inl e
            | Inr q4 \<Rightarrow>
                (case i2c_queue_start_transmitter exec (Suc (Suc (Suc n))) q4 of
                   Inl e \<Rightarrow> Inl e
                 | Inr q5 \<Rightarrow> i2c_queue_fetch_commands_loop exec (Suc (Suc (Suc n))) q5))
      else Inr (q3\<lparr>pending_buffer_switch := True\<rparr>))"
    by (simp add: Let_def bc q3_def)
  have fh3: "front_holds addr bytes h0 i q3" using fh1 by (simp add: q3_def)
  have ow3: "on_wire addr bytes i q3" using ow1 by (simp add: q3_def)
  have bh3: "back_holds addr bytes (i + 1) q3" using bh1 by (simp add: q3_def)
  have sr3: "\<not> sreg_i q3" by (simp add: q3_def)
  have ac3: "transmitter_active q3 = transmitter_active q1" by (simp add: q3_def)
  have cu3: "front_buffer_cursor q3 = front_buffer_cursor q1" by (simp add: q3_def)
  have upt: "[0..<i + 2] = [0..<i + 1] @ [i + 1]" by simp
  have cm3: "chunks_made addr bytes cb ctrl c0 (i + 2) (i + 2) q3"
    using mem1 ts1 tn1 cc1 i2 unfolding chunks_made_def upt by (auto simp: q3_def)
  show ?thesis
  proof (cases "transmitter_active q1")
    case True
    let ?q = "q3\<lparr>pending_buffer_switch := True\<rparr>"
    from True body have "i2c_queue_fetch_commands_loop exec (Suc (Suc (Suc (Suc n)))) q = Inr ?q"
      by simp
    moreover have "waiting addr bytes cb ctrl h0 c0 i ?q"
      using fh3 ow3 bh3 cm3 i2 True ac3 by (simp add: waiting_def chunks_made_def)
    moreover have "\<not> sreg_i ?q" using sr3 by simp
    moreover have "issued i q \<le> issued i ?q" using iss cu3 by (simp add: issued_def)
    ultimately show ?thesis by blast
  next
    case False
    with ac3 have inact: "\<not> transmitter_active q3" by simp
    from fh3 have ne: "front_buffer q3 \<noteq> back_buffer q3"
      and szf: "18 \<le> length (commands (deref q3 (front_buffer q3)))"
      and szb: "18 \<le> length (commands (deref q3 (back_buffer q3)))"
      and len: "unat (buf_length (deref q3 (front_buffer q3))) = length (transfer_chunk addr bytes i)"
      by (simp_all add: front_holds_def)
    from front_drained [OF fh3 ow3 inact]
    have dr: "unat (front_buffer_cursor q3) = length (transfer_chunk addr bytes i)" .
    with len have full: "unat (front_buffer_cursor q3) = unat (buf_length (deref q3 (front_buffer q3)))"
      by simp
    from front_full_hw [OF fh3 dr]
    have hw: "\<exists>new. hw_calls q3 = h0 @ new
               \<and> bus_calls new = map wire (concat (map (transfer_chunk addr bytes) [0..<i + 1]))" .
    from i2 have k3: "i + 1 \<le> 3" by simp
    from start_next_chunk [OF ne bh3 k3 szf szb full hw inact sr3, of exec n]
    obtain q4 q5 where sw: "i2c_queue_switch_buffers q3 = Inr q4"
      and st: "i2c_queue_start_transmitter exec (Suc (Suc (Suc n))) q4 = Inr q5"
      and fh5: "front_holds addr bytes h0 (i + 1) q5" and ow5: "on_wire addr bytes (i + 1) q5"
      and cu5: "unat (front_buffer_cursor q5) = 1" and np5: "\<not> pending_buffer_switch q5"
      and bl5: "buf_length (deref q5 (back_buffer q5)) = 0" and sr5: "\<not> sreg_i q5"
      and qf: "queue_frame q3 q5"
      by blast
    from False body sw st
    have "i2c_queue_fetch_commands_loop exec (Suc (Suc (Suc (Suc n)))) q
            = i2c_queue_fetch_commands_loop exec (Suc (Suc (Suc n))) q5"
      by simp
    moreover from cm3 chunks_made_frame [OF qf]
    have "chunks_made addr bytes cb ctrl c0 (i + 2) (i + 2) q5" by simp
    moreover have "issued i q \<le> issued (i + 1) q5"
    proof -
      have "issued i q1 = chunk_offset i + length (transfer_chunk addr bytes i)"
        using dr cu3 by (simp add: issued_def)
      with iss chunk_offset_Suc [OF i2, of addr bytes] cu5 show ?thesis
        by (simp add: issued_def)
    qed
    ultimately show ?thesis using fh5 ow5 np5 bl5 sr5 by blast
  qed
qed

lemma fetch_loop:
  assumes pre: "preemptible bsz exec cb ctrl" and bsz: "18 \<le> bsz" and even: "addr AND 1 = 0"
  shows "loop_entry addr bytes cb ctrl h0 c0 i q \<Longrightarrow> \<not> sreg_i q \<Longrightarrow> 6 - i \<le> fuel \<Longrightarrow>
     \<exists>q' i'. i2c_queue_fetch_commands_loop exec fuel q = Inr q'
        \<and> waiting addr bytes cb ctrl h0 c0 i' q' \<and> \<not> sreg_i q' \<and> issued i q \<le> issued i' q'"
proof (induction "2 - i" arbitrary: i q fuel)
  case 0
  from "0.prems"(1) have i2: "i \<le> 2" by (simp add: loop_entry_def)
  with "0.hyps" have i: "i = 2" by simp
  from "0.prems"(3) i have "4 \<le> fuel" by simp
  from fuel_4 [OF this] obtain n where n: "fuel = Suc (Suc (Suc (Suc n)))" ..
  from fetch_loop_iteration [OF pre bsz even "0.prems"(1,2), of n]
  show ?case
  proof (elim disjE exE conjE)
    fix q'
    assume "i2c_queue_fetch_commands_loop exec (Suc (Suc (Suc (Suc n)))) q = Inr q'"
      "waiting addr bytes cb ctrl h0 c0 i q'" "\<not> sreg_i q'" "issued i q \<le> issued i q'"
    then show ?thesis unfolding n by blast
  next
    fix q5
    assume run: "i2c_queue_fetch_commands_loop exec (Suc (Suc (Suc (Suc n)))) q
                  = i2c_queue_fetch_commands_loop exec (Suc (Suc (Suc n))) q5"
      and fh: "front_holds addr bytes h0 (i + 1) q5" and ow: "on_wire addr bytes (i + 1) q5"
      and np: "\<not> pending_buffer_switch q5" and bl: "buf_length (deref q5 (back_buffer q5)) = 0"
      and cm: "chunks_made addr bytes cb ctrl c0 (i + 2) (i + 2) q5"
      and sr: "\<not> sreg_i q5" and iss: "issued i q \<le> issued (i + 1) q5"
    from cm i have tn: "tasks_n q5 = 0" by (simp add: chunks_made_def)
    with run have "i2c_queue_fetch_commands_loop exec fuel q = Inr q5" unfolding n by simp
    moreover from fh ow np bl cm i have "waiting addr bytes cb ctrl h0 c0 3 q5"
      by (simp add: waiting_def)
    ultimately show ?thesis using sr iss i by auto
  qed
next
  case (Suc k)
  from Suc.hyps(2) have i1: "i + 1 \<le> 2" and k: "k = 2 - (i + 1)" by simp_all
  from Suc.prems(3) i1 have "4 \<le> fuel" by simp
  from fuel_4 [OF this] obtain n where n: "fuel = Suc (Suc (Suc (Suc n)))" ..
  from Suc.prems(3) i1 have fl: "6 - (i + 1) \<le> Suc (Suc (Suc n))" unfolding n by simp
  from fetch_loop_iteration [OF pre bsz even Suc.prems(1,2), of n]
  show ?case
  proof (elim disjE exE conjE)
    fix q'
    assume "i2c_queue_fetch_commands_loop exec (Suc (Suc (Suc (Suc n)))) q = Inr q'"
      "waiting addr bytes cb ctrl h0 c0 i q'" "\<not> sreg_i q'" "issued i q \<le> issued i q'"
    then show ?thesis unfolding n by blast
  next
    fix q5
    assume run: "i2c_queue_fetch_commands_loop exec (Suc (Suc (Suc (Suc n)))) q
                  = i2c_queue_fetch_commands_loop exec (Suc (Suc (Suc n))) q5"
      and fh: "front_holds addr bytes h0 (i + 1) q5" and ow: "on_wire addr bytes (i + 1) q5"
      and np: "\<not> pending_buffer_switch q5" and bl: "buf_length (deref q5 (back_buffer q5)) = 0"
      and cm: "chunks_made addr bytes cb ctrl c0 (i + 2) (i + 2) q5"
      and sr: "\<not> sreg_i q5" and iss: "issued i q \<le> issued (i + 1) q5"
    from i1 fh ow np bl cm have le: "loop_entry addr bytes cb ctrl h0 c0 (i + 1) q5"
      by (simp add: loop_entry_def)
    from Suc.hyps(1) [OF k le sr fl]
    obtain q' i' where "i2c_queue_fetch_commands_loop exec (Suc (Suc (Suc n))) q5 = Inr q'"
      "waiting addr bytes cb ctrl h0 c0 i' q'" "\<not> sreg_i q'" "issued (i + 1) q5 \<le> issued i' q'"
      by blast
    with run iss show ?thesis unfolding n
      by (intro exI [of _ q'] exI [of _ i']) simp
  qed
qed

lemma waiting_sreg [simp]:
  "waiting addr bytes cb ctrl h0 c0 i (q\<lparr>sreg_i := s\<rparr>) = waiting addr bytes cb ctrl h0 c0 i q"
  by (simp add: waiting_def)

lemma fetch_commands_enter:
  "\<not> sreg_i q \<Longrightarrow> tasks_n q \<noteq> 0 \<Longrightarrow> \<not> pending_buffer_switch q \<Longrightarrow>
     i2c_queue_fetch_commands exec (Suc n) q = i2c_queue_fetch_commands_loop exec n q"
  by (simp add: word_greater_zero_iff)

subsubsection \<open>Enqueueing the transfer on the parked engine\<close>

lemma transmit_async_parked:
  assumes pre: "preemptible bsz exec cb ctrl" and bsz: "18 \<le> bsz" and even: "addr AND 1 = 0"
    and parked: "engine_parked bsz q" and nip: "\<not> twi_interrupt_pending q"
    and fuel: "8 \<le> fuel"
  shows "\<exists>q' i'. i2c_transmit_async exec fuel addr cb ctrl
                   (q\<lparr>mem := (mem q)(ctrl := \<lparr>ctrl_length = 40, counter = 0, ctrl_data = bytes\<rparr>)\<rparr>)
                  = Inr q'
           \<and> waiting addr bytes cb ctrl (hw_calls q) (cb_calls q) i' q' \<and> 1 \<le> issued i' q'"
proof -
  let ?task = "\<lparr>callback = cb, task_data = ctrl, address = addr\<rparr>"
  let ?q1 = "q\<lparr>mem := (mem q)(ctrl := \<lparr>ctrl_length = 40, counter = 0, ctrl_data = bytes\<rparr>)\<rparr>"
  from fuel_8 [OF fuel] obtain m where m: "fuel = Suc (Suc (Suc (Suc (Suc (Suc (Suc (Suc m)))))))" ..
  let ?f1 = "Suc (Suc (Suc (Suc (Suc (Suc m)))))"
  define Q2 where "Q2 = ?q1\<lparr>sreg_i := False, tasks := (tasks q)\<lparr>elements := [?task]\<rparr>, tasks_n := 1\<rparr>"
  from parked have pk: "\<not> transmitter_active q" "tasks_n q = 0" "elements (tasks q) = []"
    "0 < elements_max (tasks q)" "\<not> pending_buffer_switch q" "front_buffer q \<noteq> back_buffer q"
    "buf_length (deref q (back_buffer q)) = 0"
    "front_buffer_cursor q = buf_length (deref q (front_buffer q))"
    "bsz \<le> length (commands (buffer_a q))" "bsz \<le> length (commands (buffer_b q))"
    by (simp_all add: engine_parked_def)
  from pk(9,10) bsz have sz: "\<And>p. 18 \<le> length (commands (deref q p))"
    by (case_tac p) (simp_all add: deref_def)
  have async: "i2c_transmit_async exec fuel addr cb ctrl ?q1 =
      (case i2c_queue_fetch_commands_loop exec (Suc ?f1) Q2 of
         Inl e \<Rightarrow> Inl e
       | Inr q3 \<Rightarrow> Inr (q3\<lparr>sreg_i := sreg_i q\<rparr>))"
    unfolding m using pk
    by (simp add: i2c_transmit_async_def Let_def ring_buffer_can_write_n_elements_def
        ring_buffer_append_def i2c_is_idle_def Q2_def)
  let ?Q = "Q2\<lparr>sreg_i := True\<rparr>"
  from pre obtain before after exec2 hf where
    ex: "exec cb ctrl ?Q = preempted (i2c_transmit_progmem_cb bsz ctrl) exec2 hf before after ?Q"
    unfolding preemptible_def by blast
  have nipQ: "\<not> twi_interrupt_pending ?Q" using nip by (simp add: Q2_def)
  have p0: "(0 :: nat) \<le> 3" by simp
  have memQ: "mem ?Q ctrl = \<lparr>ctrl_length = 40, counter = chunk_counter 0, ctrl_data = bytes\<rparr>"
    by (simp add: Q2_def chunk_counter_def)
  have emptyQ: "buf_length (deref ?Q (back_buffer ?Q)) = 0" using pk by (simp add: Q2_def)
  have szQ: "18 \<le> length (commands (deref ?Q (back_buffer ?Q)))" using sz by (simp add: Q2_def)
  have neQ: "front_buffer ?Q \<noteq> back_buffer ?Q" using pk by (simp add: Q2_def)
  have taskQ: "elements (tasks ?Q) = [?task]" by (simp add: Q2_def)
  from progmem_cb_chunk [OF bsz p0 memQ emptyQ szQ neQ taskQ even]
  obtain qc where runc: "i2c_transmit_progmem_cb bsz ctrl ?Q = Inr (True, qc)"
    and bl: "unat (buf_length (deref qc (back_buffer qc))) = length (transfer_chunk addr bytes 0)"
    and bt: "take (length (transfer_chunk addr bytes 0)) (commands (deref qc (back_buffer qc)))
          = transfer_chunk addr bytes 0"
    and lb: "length (commands (deref qc (back_buffer qc))) = length (commands (deref ?Q (back_buffer ?Q)))"
    and df: "deref qc (front_buffer qc) = deref ?Q (front_buffer ?Q)"
    and memc: "mem qc ctrl = \<lparr>ctrl_length = 40, counter = chunk_counter (0 + 1), ctrl_data = bytes\<rparr>"
    and pf: "producer_frame ?Q qc"
    by auto
  from pf have same: "front_buffer qc = front_buffer q" "back_buffer qc = back_buffer q"
    "front_buffer_cursor qc = front_buffer_cursor q" "hw_calls qc = hw_calls q"
    "transmitter_active qc = transmitter_active q" "pending_buffer_switch qc = pending_buffer_switch q"
    "tasks qc = (tasks q)\<lparr>elements := [?task]\<rparr>" "tasks_n qc = 1" "cb_calls qc = cb_calls q"
    by (simp_all add: producer_frame_def Q2_def)
  from pending_cong [OF same(4)] nip have nipc: "\<not> twi_interrupt_pending qc" by simp
  from ex runc have exq: "exec cb ctrl ?Q = Inr (True, qc)"
    by (simp add: preempted_def preempting_handlers_idle [OF nipQ] preempting_handlers_idle [OF nipc])
  have bh: "back_holds addr bytes 0 qc" using bl bt by (simp add: back_holds_def)
  then have bc: "buffer_contents (deref qc (back_buffer qc)) = transfer_chunk addr bytes 0"
    by (simp add: back_holds_def buffer_contents_def)
  from bl chunk_pos [of addr bytes 0] have pos: "0 < unat (buf_length (deref qc (back_buffer qc)))"
    by simp
  define q3 where "q3 = qc\<lparr>sreg_i := False, cb_calls := cb_calls qc @ [(?task, True, transfer_chunk addr bytes 0)]\<rparr>"
  have tn2: "tasks_n Q2 \<noteq> 0" and ts2: "elements (tasks Q2) = ?task # []"
    and empty2: "buf_length (deref Q2 (back_buffer Q2)) = 0"
    using pk by (simp_all add: Q2_def)
  have ex': "exec (callback ?task) (task_data ?task) (Q2\<lparr>sreg_i := True\<rparr>) = Inr (True, qc)"
    using exq by simp
  have tsc: "elements (tasks qc) = ?task # []" using same by simp
  from fetch_loop_body [where exec = exec and n = ?f1 and q = Q2
      and task = ?task and keep = True and ?q1.0 = qc, OF tn2 ts2 empty2 ex' pos tsc]
  have body: "i2c_queue_fetch_commands_loop exec (Suc ?f1) Q2 =
      (case i2c_queue_switch_buffers q3 of
         Inl e \<Rightarrow> Inl e
       | Inr q4 \<Rightarrow>
           (case i2c_queue_start_transmitter exec ?f1 q4 of
              Inl e \<Rightarrow> Inl e
            | Inr q5 \<Rightarrow> i2c_queue_fetch_commands_loop exec ?f1 q5))"
    using same(5) pk(1) by (simp add: Let_def bc q3_def)
  have ne3: "front_buffer q3 \<noteq> back_buffer q3" using same pk by (simp add: q3_def)
  have bh3: "back_holds addr bytes 0 q3" using bh by (simp add: q3_def)
  have szf3: "18 \<le> length (commands (deref q3 (front_buffer q3)))"
    using df sz by (simp add: q3_def Q2_def)
  have szb3: "18 \<le> length (commands (deref q3 (back_buffer q3)))"
    using lb szQ by (simp add: q3_def)
  have full3: "unat (front_buffer_cursor q3) = unat (buf_length (deref q3 (front_buffer q3)))"
    using df same pk by (simp add: q3_def Q2_def)
  have hw3: "\<exists>new. hw_calls q3 = hw_calls q @ new
               \<and> bus_calls new = map wire (concat (map (transfer_chunk addr bytes) [0..<0]))"
    using same by (simp add: q3_def bus_calls_def)
  have inact3: "\<not> transmitter_active q3" using same pk by (simp add: q3_def)
  have sr3: "\<not> sreg_i q3" by (simp add: q3_def)
  from start_next_chunk [OF ne3 bh3 p0 szf3 szb3 full3 hw3 inact3 sr3, of exec "Suc (Suc (Suc m))"]
  obtain q4 q5 where sw: "i2c_queue_switch_buffers q3 = Inr q4"
    and st: "i2c_queue_start_transmitter exec ?f1 q4 = Inr q5"
    and fh5: "front_holds addr bytes (hw_calls q) 0 q5" and ow5: "on_wire addr bytes 0 q5"
    and cu5: "unat (front_buffer_cursor q5) = 1" and np5: "\<not> pending_buffer_switch q5"
    and bl5: "buf_length (deref q5 (back_buffer q5)) = 0" and sr5: "\<not> sreg_i q5"
    and qf: "queue_frame q3 q5"
    by blast
  have "chunks_made addr bytes cb ctrl (cb_calls q) (0 + 1) (0 + 1) q3"
    using memc same by (simp add: chunks_made_def q3_def)
  with chunks_made_frame [OF qf]
  have cm5: "chunks_made addr bytes cb ctrl (cb_calls q) (0 + 1) (0 + 1) q5" by simp
  from fh5 ow5 np5 bl5 cm5 have le: "loop_entry addr bytes cb ctrl (hw_calls q) (cb_calls q) 0 q5"
    by (simp add: loop_entry_def)
  have fl: "6 - 0 \<le> ?f1" by simp
  from fetch_loop [OF pre bsz even le sr5 fl]
  obtain q' i' where run: "i2c_queue_fetch_commands_loop exec ?f1 q5 = Inr q'"
    and w: "waiting addr bytes cb ctrl (hw_calls q) (cb_calls q) i' q'"
    and iss: "issued 0 q5 \<le> issued i' q'"
    by blast
  from cu5 iss have "1 \<le> issued i' q'" by (simp add: issued_def chunk_offset_def)
  moreover from async body sw st run
  have "i2c_transmit_async exec fuel addr cb ctrl ?q1 = Inr (q'\<lparr>sreg_i := sreg_i q\<rparr>)"
    by simp
  ultimately show ?thesis using w
    by (intro exI [of _ "q'\<lparr>sreg_i := sreg_i q\<rparr>"] exI [of _ i']) (simp add: issued_def)
qed

subsubsection \<open>An interrupt while the program waits\<close>

lemma switch_buffers_active:
  "i2c_queue_switch_buffers q = Inr q' \<Longrightarrow> transmitter_active q' = transmitter_active q"
  by (cases "front_buffer q"; cases "back_buffer q")
    (auto simp: i2c_queue_switch_buffers_def Let_def read_command_def deref_def store_def
      split: if_splits)

lemma process_command_last_switch:
  assumes sreg: "\<not> sreg_i q" and act: "transmitter_active q"
    and last: "unat (front_buffer_cursor q) + 1 = unat (buf_length (deref q (front_buffer q)))"
    and code: "code (current_command q) = I2C_COMMAND_START
               \<or> code (current_command q) = I2C_COMMAND_SEND_DATA"
    and pend: "pending_buffer_switch q"
  shows "i2c_queue_process_command exec (Suc (Suc n)) q =
     (case i2c_queue_switch_buffers
             (q\<lparr>hw_calls := hw_calls q @ [wire (current_command q)],
                front_buffer_cursor := front_buffer_cursor q + 1\<rparr>) of
        Inl e \<Rightarrow> Inl e
      | Inr q2 \<Rightarrow> if 0 < tasks_n q2 then i2c_queue_fetch_commands exec n q2 else Inr q2)"
proof -
  let ?fb = "deref q (front_buffer q)"
  let ?Q = "q\<lparr>hw_calls := hw_calls q @ [wire (current_command q)],
              front_buffer_cursor := front_buffer_cursor q + 1\<rparr>"
  from last have lt: "unat (front_buffer_cursor q) < unat (buf_length ?fb)" by simp
  note succ = u8_succ [OF lt]
  have pos: "0 < buf_length ?fb" using lt by (simp add: word_less_nat_alt)
  have le: "front_buffer_cursor q \<le> buf_length ?fb" using lt by (simp add: word_le_nat_alt)
  from last have eq: "front_buffer_cursor q + 1 = buf_length ?fb" using succ(2) by simp
  have actQ: "transmitter_active ?Q" using act by simp
  show ?thesis
  proof (cases "i2c_queue_switch_buffers ?Q")
    case (Inl e)
    from code show ?thesis
      using sreg act eq pos le pend Inl
      by (elim disjE)
        (simp_all add: I2C_COMMAND_defs wire_def
          i2c_hw_send_byte_int_def i2c_hw_send_start_condition_int_def)
  next
    case (Inr q2)
    from switch_buffers_active [OF Inr] actQ have a2: "transmitter_active q2" by simp
    from code show ?thesis
      using sreg act eq pos le pend Inr a2
      by (elim disjE)
        (simp_all add: I2C_COMMAND_defs wire_def
          i2c_hw_send_byte_int_def i2c_hw_send_start_condition_int_def)
  qed
qed

lemma process_command_pending_switch:
  assumes sreg: "\<not> sreg_i q" and act: "transmitter_active q"
    and pos: "0 < unat (buf_length (deref q (front_buffer q)))"
    and le: "unat (front_buffer_cursor q) \<le> unat (buf_length (deref q (front_buffer q)))"
    and code: "code (current_command q) = I2C_COMMAND_PENDING"
    and pend: "pending_buffer_switch q"
  shows "i2c_queue_process_command exec (Suc n) q =
     (case i2c_queue_switch_buffers q of
        Inl e \<Rightarrow> Inl e
      | Inr q1 \<Rightarrow>
          (case i2c_queue_process_command exec n q1 of
             Inl e \<Rightarrow> Inl e
           | Inr q2 \<Rightarrow> if 0 < tasks_n q2 then i2c_queue_fetch_commands exec n q2 else Inr q2))"
proof -
  have pos': "0 < buf_length (deref q (front_buffer q))" using pos by (simp add: word_less_nat_alt)
  have le': "front_buffer_cursor q \<le> buf_length (deref q (front_buffer q))"
    using le by (simp add: word_le_nat_alt)
  show ?thesis using sreg act pos' le' code pend
    by (simp add: I2C_COMMAND_defs)
qed

lemma issued_bound:
  assumes fh: "front_holds addr bytes h0 i q"
  shows "issued i q \<le> 43"
    and "issued i q = 43 \<Longrightarrow> i = 3 \<and> unat (front_buffer_cursor q) = length (transfer_chunk addr bytes i)"
  using fh
  by (auto simp: issued_def chunk_offset_def front_holds_def transfer_chunk_length
      split: if_splits)

lemma waiting_active:
  assumes w: "waiting addr bytes cb ctrl h0 c0 i q" and busy: "\<not> i2c_is_idle q"
  shows "transmitter_active q"
  using assms by (auto simp: waiting_def i2c_is_idle_def chunks_made_def split: if_splits)

text \<open>After the buffer switch of a handler: the fetch cycle if the task is still queued.\<close>

lemma after_switch:
  assumes pre: "preemptible bsz exec cb ctrl" and bsz: "18 \<le> bsz" and even: "addr AND 1 = 0"
    and i2: "i \<le> 2"
    and fh: "front_holds addr bytes h0 (i + 1) q2" and ow: "on_wire addr bytes (i + 1) q2"
    and np: "\<not> pending_buffer_switch q2" and bl: "buf_length (deref q2 (back_buffer q2)) = 0"
    and cm: "chunks_made addr bytes cb ctrl c0 (i + 2) (i + 2) q2"
    and sr: "\<not> sreg_i q2" and fuel: "5 \<le> n"
  shows "\<exists>q' i'. (if 0 < tasks_n q2 then i2c_queue_fetch_commands exec (Suc n) q2 else Inr q2) = Inr q'
           \<and> waiting addr bytes cb ctrl h0 c0 i' q' \<and> issued (i + 1) q2 \<le> issued i' q'"
proof (cases "i = 2")
  case True
  with cm have tn: "tasks_n q2 = 0" by (simp add: chunks_made_def)
  from True fh ow np bl cm have "waiting addr bytes cb ctrl h0 c0 3 q2"
    by (simp add: waiting_def)
  with tn True show ?thesis by (intro exI [of _ q2] exI [of _ 3]) simp
next
  case False
  with i2 have i1: "i + 1 \<le> 2" by simp
  with cm have tn: "tasks_n q2 = 1" by (simp add: chunks_made_def)
  from i1 fh ow np bl cm have le: "loop_entry addr bytes cb ctrl h0 c0 (i + 1) q2"
    by (simp add: loop_entry_def)
  from fuel have fl: "6 - (i + 1) \<le> n" by simp
  from fetch_loop [OF pre bsz even le sr fl]
  obtain q' i' where run: "i2c_queue_fetch_commands_loop exec n q2 = Inr q'"
    and w: "waiting addr bytes cb ctrl h0 c0 i' q'"
    and iss: "issued (i + 1) q2 \<le> issued i' q'"
    by blast
  from tn sr np have "i2c_queue_fetch_commands exec (Suc n) q2 = i2c_queue_fetch_commands_loop exec n q2"
    by (intro fetch_commands_enter) simp_all
  with tn run w iss show ?thesis by (intro exI [of _ q'] exI [of _ i']) simp
qed

declare i2c_queue_process_command.simps [simp del]
declare i2c_queue_process_command_advance.simps [simp del]
declare i2c_queue_start_transmitter.simps [simp del]
declare i2c_queue_fetch_commands.simps [simp del]
declare i2c_queue_fetch_commands_loop.simps [simp del]

lemma chunks_made_consumer_updates [simp]:
  "chunks_made addr bytes cb ctrl c0 p j (q\<lparr>hw_calls := x1\<rparr>) = chunks_made addr bytes cb ctrl c0 p j q"
  "chunks_made addr bytes cb ctrl c0 p j (q\<lparr>front_buffer_cursor := x2\<rparr>) = chunks_made addr bytes cb ctrl c0 p j q"
  by (simp_all add: chunks_made_def)

lemma wait_step:
  assumes pre: "preemptible bsz exec cb ctrl" and bsz: "18 \<le> bsz" and even: "addr AND 1 = 0"
    and w: "waiting addr bytes cb ctrl h0 c0 i q" and busy: "\<not> i2c_is_idle q"
    and st: "status_accepted s" and fuel: "8 \<le> fuel"
  shows "\<exists>q' i'. TWI_vect exec fuel s q = Inr q'
           \<and> waiting addr bytes cb ctrl h0 c0 i' q' \<and> issued i q < issued i' q'"
proof -
  let ?ch = "transfer_chunk addr bytes i"
  let ?c = "unat (front_buffer_cursor q)"
  let ?Q = "q\<lparr>sreg_i := False\<rparr>"
  from fuel_8 [OF fuel] obtain m where m: "fuel = Suc (Suc (Suc (Suc (Suc (Suc (Suc (Suc m)))))))" ..
  let ?n5 = "Suc (Suc (Suc (Suc (Suc m))))"
  note tw = TWI_vect_accepted [OF st, of exec fuel q]
  from w have fh: "front_holds addr bytes h0 i q" and ow: "on_wire addr bytes i q"
    by (simp_all add: waiting_def)
  from waiting_active [OF w busy] have act: "transmitter_active q" .
  from fh have i3: "i \<le> 3" and le: "?c \<le> length ?ch"
    and len: "unat (buf_length (deref q (front_buffer q))) = length ?ch"
    and ne: "front_buffer q \<noteq> back_buffer q"
    and szf: "18 \<le> length (commands (deref q (front_buffer q)))"
    and szb: "18 \<le> length (commands (deref q (back_buffer q)))"
    by (simp_all add: front_holds_def)
  have fhQ: "front_holds addr bytes h0 i ?Q" using fh by simp
  have pend_i2: "pending_buffer_switch q \<Longrightarrow> i \<le> 2"
    using w by (auto simp: waiting_def split: if_splits)
  have wi2: "i \<le> 2 \<Longrightarrow> pending_buffer_switch q \<and> back_holds addr bytes (i + 1) q
               \<and> chunks_made addr bytes cb ctrl c0 (i + 2) (i + 2) q"
    using w by (simp add: waiting_def)
  have wi3: "\<not> i \<le> 2 \<Longrightarrow> \<not> pending_buffer_switch q \<and> buf_length (deref q (back_buffer q)) = 0
               \<and> chunks_made addr bytes cb ctrl c0 4 4 q"
    using w by (simp add: waiting_def)
  consider (mid) "?c < length ?ch" "?c + 1 = length ?ch \<longrightarrow> \<not> pending_buffer_switch q"
    | (last) "?c + 1 = length ?ch" "pending_buffer_switch q"
    | (full) "?c = length ?ch"
    using le by linarith
  then show ?thesis
  proof cases
    case mid
    have "\<exists>q'. i2c_queue_process_command exec (Suc (Suc (Suc ?n5))) ?Q = Inr q'
           \<and> front_holds addr bytes h0 i q' \<and> on_wire addr bytes i q' \<and> consumer_frame ?Q q'
           \<and> unat (front_buffer_cursor q') = unat (front_buffer_cursor ?Q) + 1
           \<and> sreg_i q' = sreg_i ?Q"
      using fhQ mid act by (intro issue_step) simp_all
    then obtain q1 where run: "i2c_queue_process_command exec fuel ?Q = Inr q1"
      and fh1: "front_holds addr bytes h0 i q1" and ow1: "on_wire addr bytes i q1"
      and fr: "consumer_frame q q1"
      and cu: "unat (front_buffer_cursor q1) = ?c + 1"
      unfolding m by auto
    from fr have ps: "pending_buffer_switch q1 = pending_buffer_switch q"
      and bb: "back_buffer q1 = back_buffer q"
      by (simp_all add: consumer_frame_def)
    note cmf = chunks_made_frame [OF consumer_queue_frame [OF fr]]
    have "waiting addr bytes cb ctrl h0 c0 i q1"
    proof (cases "i \<le> 2")
      case True
      from wi2 [OF True] mid have "?c + 1 < length ?ch" by auto
      with cu ow1 have "transmitter_active q1" by (simp add: on_wire_def)
      with True wi2 [OF True] fh1 ow1 ps cmf back_holds_consumer [OF fr] show ?thesis
        by (simp add: waiting_def)
    next
      case False
      with wi3 [OF False] fh1 ow1 ps cmf consumer_frame_deref [OF fr] bb show ?thesis
        by (simp add: waiting_def)
    qed
    moreover have "issued i q < issued i q1" using cu by (simp add: issued_def)
    ultimately show ?thesis using run tw
      by (intro exI [of _ "q1\<lparr>sreg_i := True\<rparr>"] exI [of _ i]) (simp add: issued_def)
  next
    case last
    from pend_i2 [OF last(2)] have i2: "i \<le> 2" .
    from last have lt: "?c < length ?ch" by simp
    from fh lt have cur: "current_command q = ?ch ! ?c" by (simp add: front_holds_def)
    from transfer_chunk_code [OF lt] i2
    have code: "code (current_command q) = I2C_COMMAND_START
               \<or> code (current_command q) = I2C_COMMAND_SEND_DATA"
      unfolding cur by (simp split: if_splits)
    then have ns: "code (current_command q) \<noteq> I2C_COMMAND_STOP"
      by (auto simp: I2C_COMMAND_defs)
    let ?Q2 = "?Q\<lparr>hw_calls := hw_calls ?Q @ [wire (current_command ?Q)],
                  front_buffer_cursor := front_buffer_cursor ?Q + 1\<rparr>"
    from lt len have ltw: "unat (front_buffer_cursor q) < unat (buf_length (deref q (front_buffer q)))"
      by simp
    note succ = u8_succ [OF ltw]
    have pc: "i2c_queue_process_command exec (Suc (Suc (Suc ?n5))) ?Q =
       (case i2c_queue_switch_buffers ?Q2 of
          Inl e \<Rightarrow> Inl e
        | Inr q2 \<Rightarrow> if 0 < tasks_n q2 then i2c_queue_fetch_commands exec (Suc ?n5) q2 else Inr q2)"
      using act last len code by (intro process_command_last_switch) simp_all
    from fh obtain new where new: "hw_calls q = h0 @ new"
      "bus_calls new = map wire (concat (map (transfer_chunk addr bytes) [0..<i]) @ take ?c ?ch)"
      by (auto simp: front_holds_def)
    have tk: "take ?c ?ch @ [?ch ! ?c] = ?ch"
      using last(1) lt by (metis take_Suc_conv_app_nth take_all Suc_eq_plus1 order_refl)
    have hw2: "\<exists>new. hw_calls ?Q2 = h0 @ new
               \<and> bus_calls new = map wire (concat (map (transfer_chunk addr bytes) [0..<i + 1]))"
    proof -
      from arg_cong [OF tk, of "map wire"]
      have "map wire (take ?c ?ch) @ [wire (?ch ! ?c)] = map wire ?ch" by simp
      with new cur show ?thesis
        by (intro exI [of _ "new @ [wire (current_command q)]"]) simp
    qed
    have ne2: "front_buffer ?Q2 \<noteq> back_buffer ?Q2" using ne by simp
    have bh2: "back_holds addr bytes (i + 1) ?Q2" using wi2 [OF i2] by simp
    have k3: "i + 1 \<le> 3" using i2 by simp
    have szf2: "18 \<le> length (commands (deref ?Q2 (front_buffer ?Q2)))" using szf by simp
    have szb2: "18 \<le> length (commands (deref ?Q2 (back_buffer ?Q2)))" using szb by simp
    have full2: "unat (front_buffer_cursor ?Q2) = unat (buf_length (deref ?Q2 (front_buffer ?Q2)))"
      using succ(1) last(1) len by simp
    from switch_next_chunk [OF ne2 bh2 k3 szf2 szb2 full2 hw2]
    obtain q2 where sw: "i2c_queue_switch_buffers ?Q2 = Inr q2"
      and fh2: "front_holds addr bytes h0 (i + 1) q2"
      and cu2: "front_buffer_cursor q2 = 0" and np2: "\<not> pending_buffer_switch q2"
      and bl2: "buf_length (deref q2 (back_buffer q2)) = 0" and sf: "switch_frame ?Q2 q2"
      by blast
    from sf act have a2: "transmitter_active q2" and sr2: "\<not> sreg_i q2"
      and h2: "hw_calls q2 = hw_calls q @ [wire (current_command q)]"
      by (simp_all add: switch_frame_def)
    have ow2: "on_wire addr bytes (i + 1) q2"
      using a2 cu2 pending_hw_calls [OF h2] ns chunk_pos [of addr bytes "i + 1"]
      by (simp add: on_wire_def wire_pending)
    from wi2 [OF i2] chunks_made_frame [OF switch_queue_frame [OF sf]]
    have cm2: "chunks_made addr bytes cb ctrl c0 (i + 2) (i + 2) q2" by simp
    have f5: "5 \<le> ?n5" by simp
    from after_switch [OF pre bsz even i2 fh2 ow2 np2 bl2 cm2 sr2 f5]
    obtain q' i' where run: "(if 0 < tasks_n q2 then i2c_queue_fetch_commands exec (Suc ?n5) q2 else Inr q2) = Inr q'"
      and w': "waiting addr bytes cb ctrl h0 c0 i' q'"
      and iss: "issued (i + 1) q2 \<le> issued i' q'"
      by blast
    have "issued i q < issued (i + 1) q2"
      using cu2 last(1) chunk_offset_Suc [OF i2, of addr bytes] by (simp add: issued_def)
    with iss have "issued i q < issued i' q'" by simp
    moreover from pc sw run have "i2c_queue_process_command exec fuel ?Q = Inr q'"
      unfolding m by simp
    ultimately show ?thesis using w' tw
      by (intro exI [of _ "q'\<lparr>sreg_i := True\<rparr>"] exI [of _ i']) (simp add: issued_def)
  next
    case full
    have i2: "i \<le> 2"
    proof (rule ccontr)
      assume "\<not> i \<le> 2"
      with i3 have "i = 3" by simp
      with full ow act show False by (simp add: on_wire_def)
    qed
    from fh full have code: "code (current_command q) = I2C_COMMAND_PENDING"
      by (simp add: front_holds_def)
    let ?n7 = "Suc (Suc ?n5)"
    have pc: "i2c_queue_process_command exec (Suc ?n7) ?Q =
       (case i2c_queue_switch_buffers ?Q of
          Inl e \<Rightarrow> Inl e
        | Inr q1 \<Rightarrow>
            (case i2c_queue_process_command exec ?n7 q1 of
               Inl e \<Rightarrow> Inl e
             | Inr q2 \<Rightarrow> if 0 < tasks_n q2 then i2c_queue_fetch_commands exec ?n7 q2 else Inr q2))"
      using act full len code wi2 [OF i2] chunk_pos [of addr bytes i]
      by (intro process_command_pending_switch) simp_all
    from front_full_hw [OF fh full]
    have hwQ: "\<exists>new. hw_calls ?Q = h0 @ new
               \<and> bus_calls new = map wire (concat (map (transfer_chunk addr bytes) [0..<i + 1]))"
      by simp
    have neQ: "front_buffer ?Q \<noteq> back_buffer ?Q" using ne by simp
    have bhQ: "back_holds addr bytes (i + 1) ?Q" using wi2 [OF i2] by simp
    have k3: "i + 1 \<le> 3" using i2 by simp
    have szfQ: "18 \<le> length (commands (deref ?Q (front_buffer ?Q)))" using szf by simp
    have szbQ: "18 \<le> length (commands (deref ?Q (back_buffer ?Q)))" using szb by simp
    have fullQ: "unat (front_buffer_cursor ?Q) = unat (buf_length (deref ?Q (front_buffer ?Q)))"
      using full len by simp
    from switch_next_chunk [OF neQ bhQ k3 szfQ szbQ fullQ hwQ]
    obtain q1 where sw: "i2c_queue_switch_buffers ?Q = Inr q1"
      and fh1: "front_holds addr bytes h0 (i + 1) q1"
      and cu1: "front_buffer_cursor q1 = 0" and np1: "\<not> pending_buffer_switch q1"
      and bl1: "buf_length (deref q1 (back_buffer q1)) = 0" and sf: "switch_frame ?Q q1"
      by blast
    from sf act have a1: "transmitter_active q1" and sr1: "\<not> sreg_i q1"
      by (simp_all add: switch_frame_def)
    have "\<exists>q'. i2c_queue_process_command exec (Suc (Suc ?n5)) q1 = Inr q'
           \<and> front_holds addr bytes h0 (i + 1) q' \<and> on_wire addr bytes (i + 1) q'
           \<and> consumer_frame q1 q'
           \<and> unat (front_buffer_cursor q') = unat (front_buffer_cursor q1) + 1
           \<and> sreg_i q' = sreg_i q1"
      using fh1 cu1 a1 sr1 np1 chunk_pos [of addr bytes "i + 1"] by (intro issue_step) simp_all
    then obtain q2 where run2: "i2c_queue_process_command exec ?n7 q1 = Inr q2"
      and fh2: "front_holds addr bytes h0 (i + 1) q2" and ow2: "on_wire addr bytes (i + 1) q2"
      and fr: "consumer_frame q1 q2"
      and cu2: "unat (front_buffer_cursor q2) = 1" and sr2: "\<not> sreg_i q2"
      using cu1 sr1 by auto
    from fr np1 have np2: "\<not> pending_buffer_switch q2" by (simp add: consumer_frame_def)
    from fr have bb: "back_buffer q2 = back_buffer q1" by (simp add: consumer_frame_def)
    from consumer_frame_deref [OF fr, of "back_buffer q1"] bl1 bb
    have bl2: "buf_length (deref q2 (back_buffer q2)) = 0" by simp
    from wi2 [OF i2] chunks_made_frame [OF switch_queue_frame [OF sf]]
      chunks_made_frame [OF consumer_queue_frame [OF fr]]
    have cm2: "chunks_made addr bytes cb ctrl c0 (i + 2) (i + 2) q2" by simp
    have f5: "5 \<le> Suc ?n5" by simp
    from after_switch [OF pre bsz even i2 fh2 ow2 np2 bl2 cm2 sr2 f5]
    obtain q' i' where run: "(if 0 < tasks_n q2 then i2c_queue_fetch_commands exec ?n7 q2 else Inr q2) = Inr q'"
      and w': "waiting addr bytes cb ctrl h0 c0 i' q'"
      and iss: "issued (i + 1) q2 \<le> issued i' q'"
      by blast
    have "issued i q < issued (i + 1) q2"
      using cu2 full chunk_offset_Suc [OF i2, of addr bytes] by (simp add: issued_def)
    with iss have "issued i q < issued i' q'" by simp
    moreover from pc sw run2 run have "i2c_queue_process_command exec fuel ?Q = Inr q'"
      unfolding m by simp
    ultimately show ?thesis using w' tw
      by (intro exI [of _ "q'\<lparr>sreg_i := True\<rparr>"] exI [of _ i']) (simp add: issued_def)
  qed
qed

subsubsection \<open>Waiting for the end of the transfer\<close>

lemma waiting_idle:
  assumes w: "waiting addr bytes cb ctrl h0 c0 i q" and idle: "i2c_is_idle q"
  shows "i = 3"
  using assms by (auto simp: waiting_def i2c_is_idle_def front_holds_def split: if_splits)

lemma waiting_done:
  assumes w: "waiting addr bytes cb ctrl h0 c0 i q" and all: "43 \<le> issued i q"
  shows "i2c_is_idle q"
proof -
  from w have fh: "front_holds addr bytes h0 i q" and ow: "on_wire addr bytes i q"
    by (simp_all add: waiting_def)
  from issued_bound [OF fh] all have "i = 3"
    and "unat (front_buffer_cursor q) = length (transfer_chunk addr bytes i)"
    by simp_all
  with w ow show ?thesis
    by (simp add: waiting_def on_wire_def i2c_is_idle_def chunks_made_def)
qed

lemma wait_run:
  assumes pre: "preemptible bsz exec cb ctrl" and bsz: "18 \<le> bsz" and even: "addr AND 1 = 0"
    and fuel: "8 \<le> fuel"
  shows "\<forall>s\<in>set irqs. status_accepted s \<Longrightarrow> waiting addr bytes cb ctrl h0 c0 i q
           \<Longrightarrow> 43 \<le> issued i q + length irqs \<Longrightarrow>
         \<exists>q'. i2c_wait exec fuel irqs q = Inr q'
           \<and> waiting addr bytes cb ctrl h0 c0 3 q' \<and> i2c_is_idle q'"
proof (induction irqs arbitrary: i q)
  case Nil
  from Nil.prems(3) have "43 \<le> issued i q" by simp
  from waiting_done [OF Nil.prems(2) this] have idle: "i2c_is_idle q" .
  from waiting_idle [OF Nil.prems(2) idle] Nil.prems(2) idle show ?case by simp
next
  case (Cons s irqs)
  show ?case
  proof (cases "i2c_is_idle q")
    case True
    from waiting_idle [OF Cons.prems(2) True] Cons.prems(2) True show ?thesis by simp
  next
    case False
    from Cons.prems(1) have s: "status_accepted s" and ss: "\<forall>s\<in>set irqs. status_accepted s"
      by simp_all
    from wait_step [OF pre bsz even Cons.prems(2) False s fuel]
    obtain q1 i1 where run: "TWI_vect exec fuel s q = Inr q1"
      and w1: "waiting addr bytes cb ctrl h0 c0 i1 q1"
      and iss: "issued i q < issued i1 q1"
      by blast
    from iss Cons.prems(3) have "43 \<le> issued i1 q1 + length irqs" by simp
    from Cons.IH [OF ss w1 this]
    obtain q' where "i2c_wait exec fuel irqs q1 = Inr q'"
      "waiting addr bytes cb ctrl h0 c0 3 q'" "i2c_is_idle q'"
      by blast
    with False run show ?thesis by simp
  qed
qed

subsubsection \<open>The whole transfer\<close>

lemma upt_40: "[0..<40] = [0..<16] @ [16..<32] @ [32..<40]"
proof -
  have "[0..<16 + 16] = [0..<16] @ [16..<16 + 16]" by (rule upt_add_eq_append) simp
  moreover have "[0..<32 + 8] = [0..<32] @ [32..<32 + 8]" by (rule upt_add_eq_append) simp
  ultimately show ?thesis by simp
qed

lemma wire_SendData [simp]: "wire (SendData b) = Hw_send_byte b"
  by (simp add: wire_def SendData_def I2C_COMMAND_defs)

lemma upt_4: "[0..<4] = [0, 1, 2, Suc 2]"
  by (simp add: upt_rec)

lemma upt_3: "[0..<3] = [0, 1, 2]"
  by (simp add: upt_rec)

lemma transfer_stream:
  "map wire (concat (map (transfer_chunk addr bytes) [0..<3]) @ transfer_chunk addr bytes 3)
     = Hw_send_start_condition # Hw_send_byte addr # map (\<lambda>i. Hw_send_byte (bytes i)) [0..<40]
       @ [Hw_send_stop_condition]"
proof -
  have w1: "wire \<lparr>code = I2C_COMMAND_START, data = 0\<rparr> = Hw_send_start_condition"
    and w2: "wire \<lparr>code = I2C_COMMAND_STOP, data = 0\<rparr> = Hw_send_stop_condition"
    by (simp_all add: wire_def I2C_COMMAND_defs)
  show ?thesis
    unfolding upt_3 upt_40
    by (simp add: transfer_chunk_def w1 w2 o_def)
qed

lemma progmem_40_run_preempted:
  assumes parked: "engine_parked bsz q" and nip: "\<not> twi_interrupt_pending q"
    and bsz: "18 \<le> bsz" and pre: "preemptible bsz exec cb ctrl"
    and even: "addr AND 1 = 0" and fuel: "8 \<le> fuel"
    and st: "\<forall>s\<in>set irqs. status_accepted s" and n: "42 \<le> length irqs"
  shows "\<exists>q2 new. i2c_transmit_progmem exec fuel irqs cb ctrl addr bytes 40 q = Inr q2
     \<and> cb_calls q2 = cb_calls q @
          [(\<lparr>callback = cb, task_data = ctrl, address = addr\<rparr>, True,
            \<lparr>code = I2C_COMMAND_START, data = 0\<rparr> # SendData addr # map (\<lambda>i. SendData (bytes i)) [0..<16]),
           (\<lparr>callback = cb, task_data = ctrl, address = addr\<rparr>, True,
            map (\<lambda>i. SendData (bytes i)) [16..<32]),
           (\<lparr>callback = cb, task_data = ctrl, address = addr\<rparr>, True,
            map (\<lambda>i. SendData (bytes i)) [32..<40]),
           (\<lparr>callback = cb, task_data = ctrl, address = addr\<rparr>, False,
            [\<lparr>code = I2C_COMMAND_STOP, data = 0\<rparr>])]
     \<and> hw_calls q2 = hw_calls q @ new
     \<and> bus_calls new =
          Hw_send_start_condition # Hw_send_byte addr # map (\<lambda>i. Hw_send_byte (bytes i)) [0..<40]
          @ [Hw_send_stop_condition]
     \<and> i2c_is_idle q2"
proof -
  from transmit_async_parked [OF pre bsz even parked nip fuel, of bytes]
  obtain q1 i1 where async: "i2c_transmit_async exec fuel addr cb ctrl
         (q\<lparr>mem := (mem q)(ctrl := \<lparr>ctrl_length = 40, counter = 0, ctrl_data = bytes\<rparr>)\<rparr>) = Inr q1"
    and w1: "waiting addr bytes cb ctrl (hw_calls q) (cb_calls q) i1 q1"
    and iss: "1 \<le> issued i1 q1"
    by blast
  from iss n have "43 \<le> issued i1 q1 + length irqs" by simp
  from wait_run [OF pre bsz even fuel st w1 this]
  obtain q2 where wait: "i2c_wait exec fuel irqs q1 = Inr q2"
    and w2: "waiting addr bytes cb ctrl (hw_calls q) (cb_calls q) 3 q2"
    and idle: "i2c_is_idle q2"
    by blast
  from async wait have run: "i2c_transmit_progmem exec fuel irqs cb ctrl addr bytes 40 q = Inr q2"
    by (simp add: i2c_transmit_progmem_def)
  from w2 have fh: "front_holds addr bytes (hw_calls q) 3 q2" and ow: "on_wire addr bytes 3 q2"
    and cm: "chunks_made addr bytes cb ctrl (cb_calls q) 4 4 q2"
    by (simp_all add: waiting_def)
  from idle have "\<not> transmitter_active q2" by (simp add: i2c_is_idle_def)
  from front_drained [OF fh ow this]
  have full: "unat (front_buffer_cursor q2) = length (transfer_chunk addr bytes 3)" .
  from fh full obtain new where new: "hw_calls q2 = hw_calls q @ new"
    and bus: "bus_calls new = map wire (concat (map (transfer_chunk addr bytes) [0..<3])
                @ transfer_chunk addr bytes 3)"
    by (auto simp: front_holds_def)
  from cm have calls: "cb_calls q2 = cb_calls q @
          [(\<lparr>callback = cb, task_data = ctrl, address = addr\<rparr>, True,
            \<lparr>code = I2C_COMMAND_START, data = 0\<rparr> # SendData addr # map (\<lambda>i. SendData (bytes i)) [0..<16]),
           (\<lparr>callback = cb, task_data = ctrl, address = addr\<rparr>, True,
            map (\<lambda>i. SendData (bytes i)) [16..<32]),
           (\<lparr>callback = cb, task_data = ctrl, address = addr\<rparr>, True,
            map (\<lambda>i. SendData (bytes i)) [32..<40]),
           (\<lparr>callback = cb, task_data = ctrl, address = addr\<rparr>, False,
            [\<lparr>code = I2C_COMMAND_STOP, data = 0\<rparr>])]"
    unfolding chunks_made_def upt_4 by (simp add: transfer_chunk_def)
  from run calls new bus idle show ?thesis
    unfolding transfer_stream by blast
qed

declare i2c_queue_process_command.simps [simp]
declare i2c_queue_process_command_advance.simps [simp]
declare i2c_queue_start_transmitter.simps [simp]
declare i2c_queue_fetch_commands.simps [simp]
declare i2c_queue_fetch_commands_loop.simps [simp]

text \<open>While no buffer switch is pending the handler neither reads nor writes the back
  buffer and the memory of the callbacks, and a producer call neither reads nor writes
  what the handler writes: a handler that runs between two producer calls can be moved
  before or after them.\<close>

lemma store_updates:
  "store p b (q\<lparr>hw_calls := h\<rparr>) = (store p b q)\<lparr>hw_calls := h\<rparr>"
  "store p b (q\<lparr>front_buffer_cursor := c\<rparr>) = (store p b q)\<lparr>front_buffer_cursor := c\<rparr>"
  "store p b (q\<lparr>current_command := cc\<rparr>) = (store p b q)\<lparr>current_command := cc\<rparr>"
  "store p b (q\<lparr>transmitter_active := a\<rparr>) = (store p b q)\<lparr>transmitter_active := a\<rparr>"
  "store p b (q\<lparr>sreg_i := s\<rparr>) = (store p b q)\<lparr>sreg_i := s\<rparr>"
  by (cases p; simp add: store_def)+

lemma handler_ignores_buffer:
  assumes np: "\<not> pending_buffer_switch q" and ne: "p \<noteq> front_buffer q"
  shows "TWI_vect exec (Suc (Suc n)) s (store p b q)
           = map_sum id (store p b) (TWI_vect exec (Suc (Suc n)) s q)"
  using assms
  by (simp add: TWI_vect_def Let_def read_command_def store_updates
      i2c_hw_send_byte_int_def i2c_hw_send_start_condition_int_def i2c_hw_send_stop_condition_def
      i2c_hw_disable_int_def)

lemma handler_ignores_context:
  assumes np: "\<not> pending_buffer_switch q"
  shows "TWI_vect exec (Suc (Suc n)) s (q\<lparr>mem := m\<rparr>)
           = map_sum id (\<lambda>q. q\<lparr>mem := m\<rparr>) (TWI_vect exec (Suc (Suc n)) s q)"
  using assms
  by (simp add: TWI_vect_def Let_def read_command_def
      i2c_hw_send_byte_int_def i2c_hw_send_start_condition_int_def i2c_hw_send_stop_condition_def
      i2c_hw_disable_int_def)

lemma produce_command_ignores_consumer:
  "i2c_produce_command bsz c d
     (q\<lparr>hw_calls := h, front_buffer_cursor := cu, current_command := cc,
        transmitter_active := a, sreg_i := s\<rparr>)
   = map_sum id
       (\<lambda>q. q\<lparr>hw_calls := h, front_buffer_cursor := cu, current_command := cc,
               transmitter_active := a, sreg_i := s\<rparr>)
       (i2c_produce_command bsz c d q)"
  by (simp add: i2c_produce_command_def write_command_def Let_def store_updates)

text \<open>The example of pre-emption, run: each chunk but the first is taken up after the
  handler has drained the front buffer and disabled the interrupt.\<close>

lemma example_preempted_calls:
  "map_sum id hw_calls
     (i2c_transmit_progmem example_preempting_program
        (Suc (Suc (Suc (Suc (Suc (Suc (Suc (Suc 0))))))))
        (TW_START # TW_MT_SLA_ACK # replicate 40 TW_MT_DATA_ACK) () () 0x78 of_nat 40
        example_progmem_idle)
   = Inr (Hw_init # Hw_send_start_condition # Hw_send_byte 0x78
          # map (\<lambda>i. Hw_send_byte (of_nat i)) [0..<16]
          @ Hw_disable_int # map (\<lambda>i. Hw_send_byte (of_nat i)) [16..<32]
          @ Hw_disable_int # map (\<lambda>i. Hw_send_byte (of_nat i)) [32..<40]
          @ [Hw_disable_int, Hw_send_stop_condition])"
  by (simp add: example_preempting_program_def preempted_def example_progmem_idle_def
      example_defs progmem_defs engine_defs twi_interrupt_pending_def replicate_step take_step
      upt_last_step TW_START_def TW_MT_SLA_ACK_def)

text \<open>
  C7, amended. A transfer of 40 bytes from program storage by \<^verbatim>\<open>i2c_transmit_progmem\<close> from the
  parked engine takes exactly four producer callback calls: the first three return
  \<^verbatim>\<open>true\<close> and produce 16, 16 and 8 data bytes, the first of them after the \<^verbatim>\<open>Start\<close> command and
  the address byte, and the fourth produces only the \<^verbatim>\<open>Stop\<close> command and returns \<^verbatim>\<open>false\<close>.
  On the wire go one start condition, the address byte, the 40 data bytes in their
  original order and one stop condition, and the engine is idle afterwards. This holds
  for every schedule of interrupts: whichever handlers pre-empt the callbacks and
  whichever interrupts are served while \<^verbatim>\<open>i2c_wait\<close> spins, as long as every status is one
  the handler accepts and at least 42 interrupts can be served. The only other bus calls
  are disablings of the interrupt, made when a handler finds the front buffer drained.
\<close>

theorem progmem_40_transfer:
  assumes "engine_parked bsz q" and "\<not> twi_interrupt_pending q" and "18 \<le> bsz"
    and "preemptible bsz exec cb ctrl" and "addr AND 1 = 0" and "8 \<le> fuel"
    and "list_all status_accepted irqs" and "42 \<le> length irqs"
  shows "\<exists>q2 new. i2c_transmit_progmem exec fuel irqs cb ctrl addr bytes 40 q = Inr q2
     \<and> cb_calls q2 = cb_calls q @
          [(\<lparr>callback = cb, task_data = ctrl, address = addr\<rparr>, True,
            \<lparr>code = I2C_COMMAND_START, data = 0\<rparr> # SendData addr # map (\<lambda>i. SendData (bytes i)) [0..<16]),
           (\<lparr>callback = cb, task_data = ctrl, address = addr\<rparr>, True,
            map (\<lambda>i. SendData (bytes i)) [16..<32]),
           (\<lparr>callback = cb, task_data = ctrl, address = addr\<rparr>, True,
            map (\<lambda>i. SendData (bytes i)) [32..<40]),
           (\<lparr>callback = cb, task_data = ctrl, address = addr\<rparr>, False,
            [\<lparr>code = I2C_COMMAND_STOP, data = 0\<rparr>])]
     \<and> hw_calls q2 = hw_calls q @ new
     \<and> bus_calls new =
          Hw_send_start_condition # Hw_send_byte addr # map (\<lambda>i. Hw_send_byte (bytes i)) [0..<40]
          @ [Hw_send_stop_condition]
     \<and> i2c_is_idle q2"
proof -
  from assms(7) have st: "\<forall>s\<in>set irqs. status_accepted s" by (simp add: list_all_iff)
  from progmem_40_run_preempted [OF assms(1,2,3,4,5,6) st assms(8)] show ?thesis .
qed

theorem progmem_40_transfer_witness:
  "engine_parked 18 example_progmem_idle \<and> \<not> twi_interrupt_pending example_progmem_idle
   \<and> (18 :: nat) \<le> 18 \<and> preemptible 18 example_preempting_program () ()
   \<and> (0x78 :: u8) AND 1 = 0 \<and> (8 :: nat) \<le> 8
   \<and> list_all status_accepted (TW_START # TW_MT_SLA_ACK # replicate 40 TW_MT_DATA_ACK)
   \<and> 42 \<le> length (TW_START # TW_MT_SLA_ACK # replicate 40 TW_MT_DATA_ACK)
   \<and> (\<exists>q2 new. i2c_transmit_progmem example_preempting_program 8
              (TW_START # TW_MT_SLA_ACK # replicate 40 TW_MT_DATA_ACK) () () 0x78 of_nat 40
              example_progmem_idle = Inr q2
          \<and> map (fst \<circ> snd) (cb_calls q2) = [True, True, True, False]
          \<and> hw_calls q2 = Hw_init # new
          \<and> bus_calls new =
               Hw_send_start_condition # Hw_send_byte 0x78
               # map (\<lambda>i. Hw_send_byte (of_nat i)) [0..<40] @ [Hw_send_stop_condition]
          \<and> Hw_disable_int \<in> set new
          \<and> i2c_is_idle q2)"
proof -
  let ?irqs = "TW_START # TW_MT_SLA_ACK # replicate 40 TW_MT_DATA_ACK"
  have np: "\<not> twi_interrupt_pending example_progmem_idle"
    by (simp add: twi_interrupt_pending_def example_progmem_idle_calls)
  have b: "(18 :: nat) \<le> 18" and f: "(8 :: nat) \<le> 8" and e: "(0x78 :: u8) AND 1 = 0"
    by simp_all
  have ack: "status_accepted TW_START" "status_accepted TW_MT_SLA_ACK" "status_accepted TW_MT_DATA_ACK"
    by (simp_all add: status_accepted_def TW_START_def TW_MT_SLA_ACK_def TW_MT_DATA_ACK_def
        TW_MT_SLA_NACK_def TW_STATUS_MASK_def)
  have pre: "preemptible 18 example_preempting_program () ()"
    unfolding preemptible_def example_preempting_program_def
    by (intro allI exI [of _ "[]"] exI [of _ "replicate 20 TW_MT_DATA_ACK"]
        exI [of _ example_progmem_program] exI [of _ "Suc (Suc 0)"])
      (simp add: ack)
  have st: "list_all status_accepted ?irqs" by (simp add: ack list_all_iff)
  have n: "42 \<le> length ?irqs" by simp
  have f8: "(8 :: nat) = Suc (Suc (Suc (Suc (Suc (Suc (Suc (Suc 0)))))))" by simp
  from progmem_40_transfer [OF example_progmem_idle_parked np b pre e f st n, of of_nat]
  obtain q2 new where run: "i2c_transmit_progmem example_preempting_program 8 ?irqs () () 0x78
        of_nat 40 example_progmem_idle = Inr q2"
    and calls: "map (fst \<circ> snd) (cb_calls q2) = [True, True, True, False]"
    and hw: "hw_calls q2 = Hw_init # new"
    and bus: "bus_calls new = Hw_send_start_condition # Hw_send_byte 0x78
               # map (\<lambda>i. Hw_send_byte (of_nat i)) [0..<40] @ [Hw_send_stop_condition]"
    and idle: "i2c_is_idle q2"
    by (auto simp: example_progmem_idle_calls)
  from example_preempted_calls run hw have "Hw_disable_int \<in> set new"
    unfolding f8 by simp
  with run calls hw bus idle example_progmem_idle_parked np pre st show ?thesis
    by simp
qed

subsection \<open>Bus status in the interrupt handler\<close>

lemma TWI_vect_error_status:
  assumes "twsr AND TW_STATUS_MASK > TW_MT_DATA_ACK \<or> twsr AND TW_STATUS_MASK = TW_MT_SLA_NACK"
  shows "TWI_vect exec fuel twsr q = Inl (Fault FAULT_I2C (uint (twsr AND TW_STATUS_MASK)) ''Error status'')"
  using assms by (simp add: TWI_vect_def Let_def)

text \<open>
  C6. The handler faults, with the masked status as code, on every status above
  \<^verbatim>\<open>TW_MT_DATA_ACK\<close> and on \<^verbatim>\<open>TW_MT_SLA_NACK\<close> (lemma \<open>TWI_vect_error_status\<close>). The status
  \<^verbatim>\<open>TW_BUS_ERROR\<close> is 0x00, below the threshold of the comparison: on a bus error the handler
  does not fault and goes on to send the next command, here the data byte 7.
\<close>

theorem TWI_vect_bus_error_proceeds:
  "map_sum id hw_calls (TWI_vect no_callback (Suc (Suc 0)) TW_BUS_ERROR example_sending)
   = Inr [Hw_init, Hw_send_byte 7]"
  by (simp add: example_sending_def example_defs engine_defs TW_BUS_ERROR_def no_callback_def)


end
